theory Spec2Isabelle
  imports
    Main
    "HOL-Library.AList"
    "HOL-Library.Sublist"
    "HOL-Library.Char_ord"
    "HOL-Library.List_Lexorder"
begin

chapter \<open>KrakenD template support: schema store, context analysis, diagnostics, completion\<close>

text \<open>
  A shallow embedding of the language-server core of the extension:
  \<^verbatim>\<open>schemaParser.ts\<close> (class \<^verbatim>\<open>SchemaParser\<close>), \<^verbatim>\<open>contextAnalyzer.ts\<close>
  (class \<^verbatim>\<open>ContextAnalyzer\<close>), \<^verbatim>\<open>krakenDDiagnosticsProvider.ts\<close> and
  \<^verbatim>\<open>krakenDCompletionProvider.ts\<close>.

  Conventions of the embedding.
  \<^item> A JavaScript string is a \<^typ>\<open>string\<close>: the code units of the text, taken below 256
    (ISO-8859-1). Offsets, columns and lengths count code units, as the source does.
  \<^item> A thrown exception is the \<open>Inl\<close> branch of a sum; \<^verbatim>\<open>undefined\<close> and \<^verbatim>\<open>null\<close>
    are \<open>None\<close>.
  \<^item> A JavaScript \<^verbatim>\<open>Map\<close> and the own properties of a parsed JSON object are association
    lists in enumeration order; \<^verbatim>\<open>Map.set\<close> is \<^const>\<open>AList.update\<close>, which keeps the
    position of a key already present and appends a new one.
  \<^item> Calls of \<^verbatim>\<open>console.log\<close> and \<^verbatim>\<open>console.error\<close> are left out: they return
    nothing and change no state of the program.
\<close>

section \<open>Errors and truthiness\<close>

datatype js_error = IOError | SyntaxError | TypeError | URIError | IllegalLine

text \<open>A string is truthy when it is not empty; an object or an array is always truthy.\<close>

definition truthy :: "string \<Rightarrow> bool" where
  "truthy s = (s \<noteq> [])"

definition truthy_opt :: "string option \<Rightarrow> bool" where
  "truthy_opt x = (case x of None \<Rightarrow> False | Some s \<Rightarrow> truthy s)"

section \<open>String operations of the JavaScript library\<close>

text \<open>\<^verbatim>\<open>xs.join(sep)\<close>\<close>

fun join :: "string \<Rightarrow> string list \<Rightarrow> string" where
  "join sep [] = []"
| "join sep [x] = x"
| "join sep (x # y # ys) = x @ sep @ join sep (y # ys)"

text \<open>\<^verbatim>\<open>s.includes(sub)\<close>: \<open>sub\<close> occurs in \<open>s\<close> as a contiguous run.\<close>

fun str_includes :: "string \<Rightarrow> string \<Rightarrow> bool" where
  "str_includes [] sub = (sub = [])"
| "str_includes (c # s) sub = (prefix sub (c # s) \<or> str_includes s sub)"

text \<open>\<^verbatim>\<open>s.replace(pat, rep)\<close> with a string pattern: the first occurrence only.\<close>

fun replace_first :: "string \<Rightarrow> string \<Rightarrow> string \<Rightarrow> string" where
  "replace_first pat rep [] = (if pat = [] then rep else [])"
| "replace_first pat rep (c # s) =
     (if prefix pat (c # s) then rep @ drop (length pat) (c # s)
      else c # replace_first pat rep s)"

text \<open>
  \<^verbatim>\<open>s.replace(/c/g, rep)\<close> for a one-character pattern, and \<^verbatim>\<open>s.replace(/pat/g, rep)\<close>
  for a literal pattern of several characters (scanned left to right, matches do not
  overlap).
\<close>

definition replace_char :: "char \<Rightarrow> string \<Rightarrow> string \<Rightarrow> string" where
  "replace_char c rep s = concat (map (\<lambda>x. if x = c then rep else [x]) s)"

fun replace_all :: "string \<Rightarrow> string \<Rightarrow> string \<Rightarrow> string" where
  "replace_all pat rep [] = []"
| "replace_all pat rep (c # s) =
     (if pat \<noteq> [] \<and> prefix pat (c # s)
      then rep @ replace_all pat rep (drop (length pat - 1) s)
      else c # replace_all pat rep s)"

section \<open>The schema document\<close>

text \<open>
  \<^verbatim>\<open>default?: any\<close> is an arbitrary JSON value. The store only copies it, so numbers are
  kept as integers here.
\<close>

datatype json = JNull | JBool bool | JNum int | JStr string
  | JArr "json list" | JObj "(string \<times> json) list"

text \<open>\<^verbatim>\<open>type?: string | string[]\<close>\<close>

datatype js_type = TStr string | TArr "string list"

text \<open>
  Interface \<^verbatim>\<open>SchemaProperty\<close>; every member is optional. The values of
  \<^verbatim>\<open>definitions\<close> are declared \<^verbatim>\<open>any\<close>; the parser reads their \<^verbatim>\<open>properties\<close> and
  \<^verbatim>\<open>required\<close> members, so they are schema properties too.
\<close>

datatype SchemaProperty = SchemaProperty
  (p_type: "js_type option")
  (p_description: "string option")
  (p_title: "string option")
  (p_default: "json option")
  (p_enum: "string list option")
  (p_properties: "(string \<times> SchemaProperty) list option")
  (p_items: "SchemaProperty option")
  (p_ref: "string option")
  (p_required: "string list option")

text \<open>
  Interface \<^verbatim>\<open>KrakenDSchema\<close>. The document comes from \<^verbatim>\<open>JSON.parse\<close>, which does not
  check the interface: a member that is missing is \<open>None\<close> here, and reading through it
  throws a \<^verbatim>\<open>TypeError\<close> as it does in the source.
\<close>

record KrakenDSchema =
  properties :: "(string \<times> SchemaProperty) list option"
  definitions :: "(string \<times> SchemaProperty) list option"

record FieldInfo =
  name :: string
  type :: string
  description :: string
  default :: "json option"
  enum :: "string list option"
  required :: bool

datatype CtxType = endpoint | backend | unknown

section \<open>SchemaParser\<close>

type_synonym FieldMap = "(string \<times> FieldInfo) list"

record SchemaParser =
  schema :: "KrakenDSchema option"
  endpointFields :: FieldMap
  backendFields :: FieldMap
  rootFields :: FieldMap

text \<open>The fields of a freshly constructed object, before \<^verbatim>\<open>loadSchema\<close> runs.\<close>

definition newSchemaParser :: SchemaParser where
  "newSchemaParser =
     \<lparr>schema = None, endpointFields = [], backendFields = [], rootFields = []\<rparr>"

definition fieldMappings :: "(string \<times> string) list" where
  "fieldMappings =
     [(''output_encoding'', ''endpoint_output_encoding''),
      (''url'', ''endpoint_url''),
      (''input_headers'', ''endpoint_input_headers''),
      (''input_query_strings'', ''endpoint_input_query_strings''),
      (''extra_config'', ''endpoint_extra_config''),
      (''encoding'', ''backend_encoding''),
      (''method'', ''backend_method''),
      (''url_pattern'', ''backend_url_pattern''),
      (''settings'', ''backend_settings'')]"

text \<open>
  The parts of the platform the parser calls: \<^verbatim>\<open>fs.readFileSync\<close>, \<^verbatim>\<open>JSON.parse\<close>
  (whose result may be \<^verbatim>\<open>null\<close> or another falsy value, \<open>None\<close>) and
  \<^verbatim>\<open>decodeURIComponent\<close>. Each of them may throw.
\<close>

record runtime =
  readFileSync :: "string \<Rightarrow> js_error + string"
  JSON_parse :: "string \<Rightarrow> js_error + KrakenDSchema option"
  decodeURIComponent :: "string \<Rightarrow> js_error + string"

fun getTypeString :: "SchemaProperty \<Rightarrow> string" where
  "getTypeString (SchemaProperty ty d t df e ps its rf rq) =
     (if truthy_opt rf then ''object''
      else case ty of
        Some (TArr ts) \<Rightarrow> join '' | '' ts
      | Some (TStr s) \<Rightarrow>
          (case its of
             Some it \<Rightarrow> if s = ''array'' then getTypeString it @ ''[]''
                        else if truthy s then s else ''any''
           | None \<Rightarrow> if truthy s then s else ''any'')
      | None \<Rightarrow> ''any'')"

text \<open>\<^verbatim>\<open>prop.description || prop.title || ''\<close>\<close>

definition descriptionOf :: "SchemaProperty \<Rightarrow> string" where
  "descriptionOf prop =
     (if truthy_opt (p_description prop) then the (p_description prop)
      else if truthy_opt (p_title prop) then the (p_title prop)
      else [])"

definition mkField :: "string list \<Rightarrow> string \<Rightarrow> SchemaProperty \<Rightarrow> FieldInfo" where
  "mkField req key prop =
     \<lparr>name = key, type = getTypeString prop, description = descriptionOf prop,
      default = p_default prop, enum = p_enum prop, required = (key \<in> set req)\<rparr>"

definition parseFields ::
  "(string \<times> SchemaProperty) list \<Rightarrow> FieldMap \<Rightarrow> string list \<Rightarrow> FieldMap" where
  "parseFields props targetMap req =
     foldl (\<lambda>m (key, prop). AList.update key (mkField req key prop) m) targetMap props"

text \<open>
  \<^verbatim>\<open>resolveRef\<close>, called with a schema that is not null. A definition is an object, so
  a key that is present is truthy. Indexing a missing \<^verbatim>\<open>definitions\<close> member throws.
  The \<^verbatim>\<open>URIError\<close> of \<^verbatim>\<open>decodeURIComponent\<close> is caught inside the function.
\<close>

definition resolveRef ::
  "runtime \<Rightarrow> KrakenDSchema \<Rightarrow> string \<Rightarrow> js_error + SchemaProperty option" where
  "resolveRef rt sch ref =
     (case definitions sch of
        None \<Rightarrow> Inl TypeError
      | Some defs \<Rightarrow>
          (let refPath = replace_first ''#/definitions/'' [] ref in
           case map_of defs refPath of
             Some d \<Rightarrow> Inr (Some d)
           | None \<Rightarrow>
               (let encodedPath = replace_char CHR '':'' ''%3A'' (replace_char CHR ''/'' ''~1'' refPath) in
                case map_of defs encodedPath of
                  Some d \<Rightarrow> Inr (Some d)
                | None \<Rightarrow>
                    (case decodeURIComponent rt
                            (replace_all ''%3A'' '':'' (replace_all ''~1'' ''/'' refPath)) of
                       Inl e \<Rightarrow> Inr None
                     | Inr decodedPath \<Rightarrow>
                         (case map_of defs decodedPath of
                            Some d \<Rightarrow> Inr (Some d)
                          | None \<Rightarrow> Inr None)))))"

text \<open>\<^verbatim>\<open>props.key?.items?.$ref\<close>\<close>

definition itemsRef :: "(string \<times> SchemaProperty) list \<Rightarrow> string \<Rightarrow> string option" where
  "itemsRef props key =
     (case map_of props key of
        None \<Rightarrow> None
      | Some p \<Rightarrow> (case p_items p of None \<Rightarrow> None | Some it \<Rightarrow> p_ref it))"

text \<open>
  \<^verbatim>\<open>parseSchema\<close> fills the three tables one after the other. An exception leaves the
  tables as they are at that moment, so the result is the state reached together with
  the exception, if any.
\<close>

definition parseBackend ::
  "runtime \<Rightarrow> KrakenDSchema \<Rightarrow> (string \<times> SchemaProperty) list \<Rightarrow> SchemaParser
     \<Rightarrow> js_error option \<times> SchemaParser" where
  "parseBackend rt sch endpointProps st =
     (let backendRef = itemsRef endpointProps ''backend'' in
      if truthy_opt backendRef then
        (case resolveRef rt sch (the backendRef) of
           Inl e \<Rightarrow> (Some e, st)
         | Inr backendDef \<Rightarrow>
             (case backendDef of
                None \<Rightarrow> (None, st)
              | Some bd \<Rightarrow>
                  (case p_properties bd of
                     None \<Rightarrow> (None, st)
                   | Some bprops \<Rightarrow>
                       (None, st\<lparr>backendFields :=
                          parseFields bprops (backendFields st)
                            (case p_required bd of None \<Rightarrow> [] | Some r \<Rightarrow> r)\<rparr>))))
      else (None, st))"

definition parseSchema :: "runtime \<Rightarrow> SchemaParser \<Rightarrow> js_error option \<times> SchemaParser" where
  "parseSchema rt st =
     (case schema st of
        None \<Rightarrow> (None, st)
      | Some sch \<Rightarrow>
          (case properties sch of
             None \<Rightarrow> (Some TypeError, st)
           | Some props \<Rightarrow>
               (let st1 = st\<lparr>rootFields := parseFields props (rootFields st) []\<rparr>;
                    endpointRef = itemsRef props ''endpoints''
                in if truthy_opt endpointRef then
                     (case resolveRef rt sch (the endpointRef) of
                        Inl e \<Rightarrow> (Some e, st1)
                      | Inr endpointDef \<Rightarrow>
                          (case endpointDef of
                             None \<Rightarrow> (None, st1)
                           | Some ed \<Rightarrow>
                               (case p_properties ed of
                                  None \<Rightarrow> (None, st1)
                                | Some eprops \<Rightarrow>
                                    parseBackend rt sch eprops
                                      (st1\<lparr>endpointFields :=
                                         parseFields eprops (endpointFields st1)
                                           (case p_required ed of None \<Rightarrow> [] | Some r \<Rightarrow> r)\<rparr>))))
                   else (None, st1))))"

text \<open>
  \<^verbatim>\<open>loadSchema\<close>, as the constructor runs it on the new object. The \<^verbatim>\<open>catch\<close> block
  swallows every exception, so the result is always a store.
\<close>

definition loadSchema :: "runtime \<Rightarrow> string \<Rightarrow> SchemaParser" where
  "loadSchema rt schemaPath =
     (case readFileSync rt schemaPath of
        Inl e \<Rightarrow> newSchemaParser
      | Inr schemaContent \<Rightarrow>
          (case JSON_parse rt schemaContent of
             Inl e \<Rightarrow> newSchemaParser
           | Inr sch \<Rightarrow> snd (parseSchema rt (newSchemaParser\<lparr>schema := sch\<rparr>))))"

text \<open>The alias copy of a field: \<^verbatim>\<open>{...field, name: mapping, description: ...}\<close>\<close>

definition aliasOf :: "FieldInfo \<Rightarrow> string \<Rightarrow> string \<Rightarrow> FieldInfo" where
  "aliasOf field prefixed original =
     field\<lparr>name := prefixed,
           description := description field @ '' (Custom field: maps to '' @ original @ '')''\<rparr>"

definition withAliases :: "FieldMap \<Rightarrow> FieldInfo list" where
  "withAliases m =
     map snd m @
     concat (map (\<lambda>field. case map_of fieldMappings (name field) of
                             None \<Rightarrow> []
                           | Some mapping \<Rightarrow>
                               if truthy mapping then [aliasOf field mapping (name field)] else [])
                 (map snd m))"

definition getEndpointFields :: "SchemaParser \<Rightarrow> FieldInfo list" where
  "getEndpointFields st = withAliases (endpointFields st)"

definition getBackendFields :: "SchemaParser \<Rightarrow> FieldInfo list" where
  "getBackendFields st = withAliases (backendFields st)"

definition getRootFields :: "SchemaParser \<Rightarrow> FieldInfo list" where
  "getRootFields st = map snd (rootFields st)"

text \<open>The loop of \<^verbatim>\<open>getFieldInfo\<close> over the entries of \<^verbatim>\<open>fieldMappings\<close>.\<close>

fun findPrefixed :: "FieldMap \<Rightarrow> string \<Rightarrow> (string \<times> string) list \<Rightarrow> FieldInfo option" where
  "findPrefixed m fieldName [] = None"
| "findPrefixed m fieldName ((original, prefixed) # rest) =
     (if prefixed = fieldName then
        (case map_of m original of
           Some field \<Rightarrow> Some (aliasOf field prefixed original)
         | None \<Rightarrow> findPrefixed m fieldName rest)
      else findPrefixed m fieldName rest)"

definition tableOf :: "SchemaParser \<Rightarrow> CtxType \<Rightarrow> FieldMap" where
  "tableOf st context =
     (if context = endpoint then endpointFields st
      else if context = backend then backendFields st
      else rootFields st)"

definition getFieldInfo :: "SchemaParser \<Rightarrow> CtxType \<Rightarrow> string \<Rightarrow> FieldInfo option" where
  "getFieldInfo st context fieldName =
     (let m = tableOf st context in
      case map_of m fieldName of
        Some field \<Rightarrow> Some field
      | None \<Rightarrow> findPrefixed m fieldName fieldMappings)"

definition isValidField :: "SchemaParser \<Rightarrow> CtxType \<Rightarrow> string \<Rightarrow> bool" where
  "isValidField st context fieldName = (getFieldInfo st context fieldName \<noteq> None)"

definition getEnumValues :: "SchemaParser \<Rightarrow> CtxType \<Rightarrow> string \<Rightarrow> string list option" where
  "getEnumValues st context fieldName =
     (case getFieldInfo st context fieldName of None \<Rightarrow> None | Some field \<Rightarrow> enum field)"

text \<open>
  The field list of a shape, as \<^verbatim>\<open>findSimilarFields\<close> and \<^verbatim>\<open>getFieldCompletions\<close>
  both select it.
\<close>

definition getFields :: "SchemaParser \<Rightarrow> CtxType \<Rightarrow> FieldInfo list" where
  "getFields st contextType =
     (if contextType = endpoint then getEndpointFields st
      else if contextType = backend then getBackendFields st
      else getRootFields st)"

subsection \<open>Invariant of the tables, and the endpoint definition the parser reaches\<close>

text \<open>Every entry of a table is stored under the name of its field.\<close>

definition keys_named :: "FieldMap \<Rightarrow> bool" where
  "keys_named m = (\<forall>(k, f) \<in> set m. name f = k)"

definition store_ok :: "SchemaParser \<Rightarrow> bool" where
  "store_ok st =
     (keys_named (endpointFields st) \<and> keys_named (backendFields st) \<and> keys_named (rootFields st))"

text \<open>
  The definition that \<^verbatim>\<open>parseSchema\<close> reads the endpoint fields from:
  \<^verbatim>\<open>resolveRef(schema.properties.endpoints?.items?.$ref)\<close>, when it is found.
\<close>

definition endpointDef :: "runtime \<Rightarrow> KrakenDSchema \<Rightarrow> SchemaProperty option" where
  "endpointDef rt sch =
     (case properties sch of
        None \<Rightarrow> None
      | Some props \<Rightarrow>
          (let endpointRef = itemsRef props ''endpoints'' in
           if truthy_opt endpointRef then
             (case resolveRef rt sch (the endpointRef) of Inl e \<Rightarrow> None | Inr d \<Rightarrow> d)
           else None))"

subsection \<open>Sample schema documents\<close>

definition typed :: "string \<Rightarrow> SchemaProperty" where
  "typed ty = SchemaProperty (Some (TStr ty)) None None None None None None None None"

definition enumerated :: "string list \<Rightarrow> SchemaProperty" where
  "enumerated vs = SchemaProperty (Some (TStr ''string'')) None None None (Some vs) None None None None"

definition arrayOfRef :: "string \<Rightarrow> SchemaProperty" where
  "arrayOfRef r =
     SchemaProperty (Some (TStr ''array'')) None None None None None
       (Some (SchemaProperty None None None None None None None (Some r) None)) None None"

definition objectDef :: "(string \<times> SchemaProperty) list \<Rightarrow> string list \<Rightarrow> SchemaProperty" where
  "objectDef props req =
     SchemaProperty (Some (TStr ''object'')) None None None None (Some props) None None (Some req)"

text \<open>
  A document in the layout of the KrakenD schema: the endpoint definition has
  \<^verbatim>\<open>url\<close> and \<^verbatim>\<open>method\<close> (with an enum), the backend definition \<^verbatim>\<open>encoding\<close>.
\<close>

definition sampleSchema :: KrakenDSchema where
  "sampleSchema =
     \<lparr>properties = Some
        [(''version'', typed ''integer''),
         (''output_encoding'', enumerated [''json'', ''negotiate'']),
         (''endpoints'', arrayOfRef ''#/definitions/endpoint.json'')],
      definitions = Some
        [(''endpoint.json'',
            objectDef
              [(''endpoint'', typed ''string''),
               (''url'', enumerated [''/a'', ''/b'']),
               (''method'', enumerated [''GET'', ''POST'', ''PUT'']),
               (''backend'', arrayOfRef ''#/definitions/backend.json'')]
              [''endpoint'', ''url'']),
         (''backend.json'',
            objectDef
              [(''url_pattern'', typed ''string''),
               (''encoding'', enumerated [''json'', ''xml'']),
               (''host'', typed ''array'')]
              [''url_pattern''])]\<rparr>"

text \<open>
  A document whose endpoint definition has a property named \<^verbatim>\<open>endpoint_url\<close> of its
  own, beside \<^verbatim>\<open>url\<close>.
\<close>

definition clashSchema :: KrakenDSchema where
  "clashSchema =
     \<lparr>properties = Some [(''endpoints'', arrayOfRef ''#/definitions/endpoint.json'')],
      definitions = Some
        [(''endpoint.json'',
            objectDef
              [(''url'', enumerated [''/a'']),
               (''endpoint_url'', enumerated [''/b''])]
              [''url''])]\<rparr>"

text \<open>
  A platform on which the schema file is read and parsed to the given document, one on
  which the file cannot be read, and one on which its text is not JSON.
\<close>

definition fixedRuntime :: "KrakenDSchema option \<Rightarrow> runtime" where
  "fixedRuntime sch =
     \<lparr>readFileSync = (\<lambda>p. Inr []), JSON_parse = (\<lambda>c. Inr sch),
      decodeURIComponent = (\<lambda>s. Inr s)\<rparr>"

definition unreadableRuntime :: runtime where
  "unreadableRuntime =
     \<lparr>readFileSync = (\<lambda>p. Inl IOError), JSON_parse = (\<lambda>c. Inr None),
      decodeURIComponent = (\<lambda>s. Inr s)\<rparr>"

definition unparsableRuntime :: runtime where
  "unparsableRuntime =
     \<lparr>readFileSync = (\<lambda>p. Inr ''{''), JSON_parse = (\<lambda>c. Inl SyntaxError),
      decodeURIComponent = (\<lambda>s. Inr s)\<rparr>"

definition sampleStore :: SchemaParser where
  "sampleStore = loadSchema (fixedRuntime (Some sampleSchema)) ''krakendSchema.json''"

definition clashStore :: SchemaParser where
  "clashStore = loadSchema (fixedRuntime (Some clashSchema)) ''krakendSchema.json''"

section \<open>Characters, strings and positions\<close>

text \<open>
  \<^verbatim>\<open>\s\<close> and \<^verbatim>\<open>trim()\<close>: white space and line terminators (tab, LF, VT, FF, CR, space,
  no-break space); \<^verbatim>\<open>\w\<close>: ASCII letters, digits and the underscore.
\<close>

definition is_space :: "char \<Rightarrow> bool" where
  "is_space c = ((of_char c :: nat) \<in> {9, 10, 11, 12, 13, 32, 160})"

definition is_word :: "char \<Rightarrow> bool" where
  "is_word c =
     (let n = (of_char c :: nat)
      in (97 \<le> n \<and> n \<le> 122) \<or> (65 \<le> n \<and> n \<le> 90) \<or> (48 \<le> n \<and> n \<le> 57) \<or> n = 95)"

text \<open>\<^verbatim>\<open>toLowerCase()\<close> on code units below 256: A-Z and the capital letters of Latin-1.\<close>

definition lower_char :: "char \<Rightarrow> char" where
  "lower_char c =
     (let n = (of_char c :: nat)
      in if (65 \<le> n \<and> n \<le> 90) \<or> (192 \<le> n \<and> n \<le> 214) \<or> (216 \<le> n \<and> n \<le> 222)
         then char_of (n + 32) else c)"

definition toLowerCase :: "string \<Rightarrow> string" where
  "toLowerCase s = map lower_char s"

definition trim :: "string \<Rightarrow> string" where
  "trim s = rev (dropWhile is_space (rev (dropWhile is_space s)))"

text \<open>\<^verbatim>\<open>s.split(c)\<close> for a one-character separator; the result is never empty.\<close>

fun split_acc :: "char \<Rightarrow> string \<Rightarrow> string \<Rightarrow> string list" where
  "split_acc c acc [] = [rev acc]"
| "split_acc c acc (x # xs) =
     (if x = c then rev acc # split_acc c [] xs else split_acc c (x # acc) xs)"

definition split :: "char \<Rightarrow> string \<Rightarrow> string list" where
  "split c s = split_acc c [] s"

text \<open>\<^verbatim>\<open>s.indexOf(sub)\<close> and \<^verbatim>\<open>s.lastIndexOf(sub)\<close>; \<open>-1\<close> when \<open>sub\<close> does not occur.\<close>

fun indexOf_from :: "nat \<Rightarrow> string \<Rightarrow> string \<Rightarrow> int" where
  "indexOf_from i [] sub = (if sub = [] then int i else -1)"
| "indexOf_from i (c # s) sub =
     (if prefix sub (c # s) then int i else indexOf_from (Suc i) s sub)"

definition indexOf :: "string \<Rightarrow> string \<Rightarrow> int" where
  "indexOf s sub = indexOf_from 0 s sub"

fun lastIndexOf_from :: "nat \<Rightarrow> int \<Rightarrow> string \<Rightarrow> string \<Rightarrow> int" where
  "lastIndexOf_from i found [] sub = (if sub = [] then int i else found)"
| "lastIndexOf_from i found (c # s) sub =
     lastIndexOf_from (Suc i) (if prefix sub (c # s) then int i else found) s sub"

definition lastIndexOf :: "string \<Rightarrow> string \<Rightarrow> int" where
  "lastIndexOf s sub = lastIndexOf_from 0 (-1) s sub"

definition startsWith :: "string \<Rightarrow> string \<Rightarrow> bool" where
  "startsWith s p = prefix p s"

definition endsWith :: "string \<Rightarrow> string \<Rightarrow> bool" where
  "endsWith s p = prefix (rev p) (rev s)"

section \<open>Regular expressions\<close>

text \<open>
  The patterns of the source are written as syntax trees and run by a backtracking
  matcher with the priorities of the ECMAScript one: a greedy quantifier tries one more
  iteration before it tries the rest of the pattern, a lazy one the other way round, and
  an iteration that consumes nothing is rejected. No pattern of the source has a capture
  group under a quantifier, a back reference, a look-around or a flag other than \<^verbatim>\<open>g\<close>;
  \<^verbatim>\<open>^\<close> and \<^verbatim>\<open>$\<close> are the ends of the input.
\<close>

datatype cclass =
    Ch char            \<comment> \<open>the character itself\<close>
  | OneOf string       \<comment> \<open>\<^verbatim>\<open>[...]\<close>\<close>
  | NoneOf string      \<comment> \<open>\<^verbatim>\<open>[^...]\<close>\<close>
  | WordCh             \<comment> \<open>\<^verbatim>\<open>\w\<close>\<close>
  | SpaceCh            \<comment> \<open>\<^verbatim>\<open>\s\<close>\<close>
  | AnyCh              \<comment> \<open>\<^verbatim>\<open>[\s\S]\<close>\<close>

fun accepts :: "cclass \<Rightarrow> char \<Rightarrow> bool" where
  "accepts (Ch c) x = (x = c)"
| "accepts (OneOf cs) x = (x \<in> set cs)"
| "accepts (NoneOf cs) x = (x \<notin> set cs)"
| "accepts WordCh x = is_word x"
| "accepts SpaceCh x = is_space x"
| "accepts AnyCh x = True"

datatype regex =
    Eps
  | Atom cclass
  | Seq regex regex
  | Star regex         \<comment> \<open>\<^verbatim>\<open>r*\<close>\<close>
  | LazyStar regex     \<comment> \<open>\<^verbatim>\<open>r*?\<close>\<close>
  | Opt regex          \<comment> \<open>\<^verbatim>\<open>r?\<close>\<close>
  | Group nat regex    \<comment> \<open>capture group with its number\<close>
  | Bol                \<comment> \<open>\<^verbatim>\<open>^\<close>\<close>
  | Eol                \<comment> \<open>\<^verbatim>\<open>$\<close>\<close>

definition Plus :: "regex \<Rightarrow> regex" where
  "Plus r = Seq r (Star r)"

fun seqs :: "regex list \<Rightarrow> regex" where
  "seqs [] = Eps"
| "seqs [r] = r"
| "seqs (r # rs) = Seq r (seqs rs)"

definition lit :: "string \<Rightarrow> regex" where
  "lit s = seqs (map (\<lambda>c. Atom (Ch c)) s)"

text \<open>
  The matcher works on a stack of pending work. Beside patterns the stack holds the
  checks that close an iteration (with the length of the input left when the iteration
  began) and the ends of capture groups (with the offset where the group began).
\<close>

datatype frame =
    R regex
  | StarChk nat regex
  | LazyChk nat regex
  | OptChk nat
  | GroupEnd nat nat

type_synonym caps = "(nat \<times> nat \<times> nat) list"

fun rsize :: "regex \<Rightarrow> nat" where
  "rsize Eps = 1"
| "rsize (Atom a) = 1"
| "rsize (Seq p q) = rsize p + rsize q + 1"
| "rsize (Star p) = rsize p + 3"
| "rsize (LazyStar p) = rsize p + 3"
| "rsize (Opt p) = rsize p + 2"
| "rsize (Group g p) = rsize p + 2"
| "rsize Bol = 1"
| "rsize Eol = 1"

fun fsize :: "nat \<Rightarrow> frame \<Rightarrow> nat" where
  "fsize l (R r) = rsize r"
| "fsize l (StarChk n p) = (if l < n then rsize p + 4 else 1)"
| "fsize l (LazyChk n p) = (if l < n then rsize p + 4 else 1)"
| "fsize l (OptChk n) = 1"
| "fsize l (GroupEnd g b) = 1"

definition ksize :: "nat \<Rightarrow> frame list \<Rightarrow> nat" where
  "ksize l k = sum_list (map (fsize l) k)"

text \<open>
  \<open>run N k s c\<close>: run the stack \<open>k\<close> on the rest \<open>s\<close> of an input of length \<open>N\<close>, with the
  captures \<open>c\<close> made so far (the latest first). The result is the input left after the
  match and the captures, or \<open>None\<close> when every alternative fails.
\<close>

function (sequential) run :: "nat \<Rightarrow> frame list \<Rightarrow> string \<Rightarrow> caps \<Rightarrow> (string \<times> caps) option" where
  "run N [] s c = Some (s, c)"
| "run N (R Eps # k) s c = run N k s c"
| "run N (R (Atom a) # k) [] c = None"
| "run N (R (Atom a) # k) (x # s) c = (if accepts a x then run N k s c else None)"
| "run N (R (Seq p q) # k) s c = run N (R p # R q # k) s c"
| "run N (R (Star p) # k) s c =
     (case run N (R p # StarChk (length s) p # k) s c of
        Some r \<Rightarrow> Some r
      | None \<Rightarrow> run N k s c)"
| "run N (StarChk n p # k) s c = (if length s < n then run N (R (Star p) # k) s c else None)"
| "run N (R (LazyStar p) # k) s c =
     (case run N k s c of
        Some r \<Rightarrow> Some r
      | None \<Rightarrow> run N (R p # LazyChk (length s) p # k) s c)"
| "run N (LazyChk n p # k) s c = (if length s < n then run N (R (LazyStar p) # k) s c else None)"
| "run N (R (Opt p) # k) s c =
     (case run N (R p # OptChk (length s) # k) s c of
        Some r \<Rightarrow> Some r
      | None \<Rightarrow> run N k s c)"
| "run N (OptChk n # k) s c = (if length s < n then run N k s c else None)"
| "run N (R (Group g p) # k) s c = run N (R p # GroupEnd g (N - length s) # k) s c"
| "run N (GroupEnd g b # k) s c = run N k s ((g, b, N - length s) # c)"
| "run N (R Bol # k) s c = (if length s = N then run N k s c else None)"
| "run N (R Eol # k) s c = (if s = [] then run N k s c else None)"
  by pat_completeness auto
termination
  by (relation "inv_image (less_than <*lex*> less_than)
                  (\<lambda>(N, k, s, c). (length s, ksize (length s) k))")
     (auto simp: ksize_def)

text \<open>
  A match is the offset where it begins, the offset where it ends, and its captures.
  \<open>search\<close> tries the offsets from left to right: \<^verbatim>\<open>re.exec(s)\<close>, \<^verbatim>\<open>s.match(re)\<close> and
  \<^verbatim>\<open>re.test(s)\<close> of a pattern without the \<^verbatim>\<open>g\<close> flag.
\<close>

type_synonym rmatch = "nat \<times> nat \<times> caps"

fun search :: "frame list \<Rightarrow> nat \<Rightarrow> string \<Rightarrow> rmatch option" where
  "search k N [] =
     (case run N k [] [] of Some (rest, c) \<Rightarrow> Some (N, N - length rest, c) | None \<Rightarrow> None)"
| "search k N (x # s) =
     (case run N k (x # s) [] of
        Some (rest, c) \<Rightarrow> Some (N - length (x # s), N - length rest, c)
      | None \<Rightarrow> search k N s)"

definition exec :: "regex \<Rightarrow> string \<Rightarrow> rmatch option" where
  "exec re inp = search [R re] (length inp) inp"

definition test :: "regex \<Rightarrow> string \<Rightarrow> bool" where
  "test re inp = (exec re inp \<noteq> None)"

text \<open>
  All matches of a pattern with the \<^verbatim>\<open>g\<close> flag, from left to right: \<^verbatim>\<open>s.matchAll(re)\<close>,
  \<^verbatim>\<open>s.replace(re, ...)\<close>, and the loop \<^verbatim>\<open>while ((match = re.exec(s)) !== null)\<close>. The next
  attempt begins where the match ended, one further when the match was empty; \<open>skip\<close>
  counts the characters still to pass over. (After an empty match the \<^verbatim>\<open>exec\<close> loop
  would not advance; the two patterns it is used with consume at least four
  characters.)
\<close>

fun scan :: "frame list \<Rightarrow> nat \<Rightarrow> nat \<Rightarrow> string \<Rightarrow> rmatch list" where
  "scan k N skip [] =
     (if skip = 0 then
        (case run N k [] [] of Some (rest, c) \<Rightarrow> [(N, N - length rest, c)] | None \<Rightarrow> [])
      else [])"
| "scan k N skip (x # s) =
     (if skip > 0 then scan k N (skip - 1) s
      else case run N k (x # s) [] of
             Some (rest, c) \<Rightarrow>
               (N - length (x # s), N - length rest, c)
                 # scan k N (length (x # s) - length rest - 1) s
           | None \<Rightarrow> scan k N 0 s)"

definition matchAll :: "regex \<Rightarrow> string \<Rightarrow> rmatch list" where
  "matchAll re inp = scan [R re] (length inp) 0 inp"

text \<open>The text of a match (\<^verbatim>\<open>match[0]\<close>) and of a capture group (\<^verbatim>\<open>match[g]\<close>).\<close>

definition matched :: "string \<Rightarrow> rmatch \<Rightarrow> string" where
  "matched inp mt = (case mt of (b, e, c) \<Rightarrow> take (e - b) (drop b inp))"

definition group :: "string \<Rightarrow> rmatch \<Rightarrow> nat \<Rightarrow> string" where
  "group inp mt g =
     (case mt of (b, e, c) \<Rightarrow>
        (case map_of c g of None \<Rightarrow> [] | Some (gb, ge) \<Rightarrow> take (ge - gb) (drop gb inp)))"

text \<open>\<^verbatim>\<open>s.replace(re, rep)\<close> for a pattern with the \<^verbatim>\<open>g\<close> flag and a constant replacement.\<close>

fun splice :: "string \<Rightarrow> string \<Rightarrow> nat \<Rightarrow> rmatch list \<Rightarrow> string" where
  "splice inp rep pos [] = drop pos inp"
| "splice inp rep pos ((b, e, c) # ms) = take (b - pos) (drop pos inp) @ rep @ splice inp rep e ms"

definition replaceRe :: "regex \<Rightarrow> string \<Rightarrow> string \<Rightarrow> string" where
  "replaceRe re rep inp = splice inp rep 0 (matchAll re inp)"

section \<open>The text document of the editor\<close>

text \<open>
  The editor's \<^verbatim>\<open>TextDocument\<close>, \<^verbatim>\<open>Position\<close> and \<^verbatim>\<open>Range\<close> are outside the repository.
  A document is its file name, its language identifier and its text; lines are
  separated by LF (the text holds no CR). \<^verbatim>\<open>lineAt\<close> throws on a line that does not
  exist; \<^verbatim>\<open>positionAt\<close> and \<^verbatim>\<open>getText\<close> clamp their arguments to the document.
\<close>

record TextDocument =
  fileName :: string
  languageId :: string
  getText :: string

record Position =
  line :: nat
  character :: nat

record Range =
  range_start :: Position
  range_end :: Position

definition Pos :: "nat \<Rightarrow> nat \<Rightarrow> Position" where
  "Pos l c = \<lparr>line = l, character = c\<rparr>"

definition Rng :: "Position \<Rightarrow> Position \<Rightarrow> Range" where
  "Rng a b = \<lparr>range_start = a, range_end = b\<rparr>"

definition linesOf :: "TextDocument \<Rightarrow> string list" where
  "linesOf document = split CHR 0x0A (getText document)"

definition lineAt :: "TextDocument \<Rightarrow> nat \<Rightarrow> js_error + string" where
  "lineAt document n =
     (if n < length (linesOf document) then Inr (linesOf document ! n) else Inl IllegalLine)"

definition positionAt :: "TextDocument \<Rightarrow> nat \<Rightarrow> Position" where
  "positionAt document offset =
     (let pre = take offset (getText document)
      in Pos (length (filter (\<lambda>c. c = CHR 0x0A) pre))
             (length (takeWhile (\<lambda>c. c \<noteq> CHR 0x0A) (rev pre))))"

definition offsetAt :: "TextDocument \<Rightarrow> Position \<Rightarrow> nat" where
  "offsetAt document p =
     (let ls = linesOf document
      in if line p < length ls
         then sum_list (map (\<lambda>l. length l + 1) (take (line p) ls))
                + min (character p) (length (ls ! line p))
         else length (getText document))"

definition getTextRange :: "TextDocument \<Rightarrow> Range \<Rightarrow> string" where
  "getTextRange document r =
     (let b = offsetAt document (range_start r); e = offsetAt document (range_end r)
      in take (e - b) (drop b (getText document)))"

subsection \<open>What a pattern matches\<close>

text \<open>
  The declarative reading of a pattern: \<open>rm N r s c s' c'\<close> holds when \<open>r\<close> can consume the
  front of \<open>s\<close> and leave \<open>s'\<close>, in an input of length \<open>N\<close>, turning the captures \<open>c\<close>
  into \<open>c'\<close>. The matcher only returns matches of this relation.
\<close>

inductive rm :: "nat \<Rightarrow> regex \<Rightarrow> string \<Rightarrow> caps \<Rightarrow> string \<Rightarrow> caps \<Rightarrow> bool" for N :: nat where
  rm_Eps: "rm N Eps s c s c"
| rm_Atom: "accepts a x \<Longrightarrow> rm N (Atom a) (x # s) c s c"
| rm_Seq: "rm N p s c s1 c1 \<Longrightarrow> rm N q s1 c1 s2 c2 \<Longrightarrow> rm N (Seq p q) s c s2 c2"
| rm_Star0: "rm N (Star p) s c s c"
| rm_StarS: "rm N p s c s1 c1 \<Longrightarrow> rm N (Star p) s1 c1 s2 c2 \<Longrightarrow> rm N (Star p) s c s2 c2"
| rm_Lazy0: "rm N (LazyStar p) s c s c"
| rm_LazyS: "rm N p s c s1 c1 \<Longrightarrow> rm N (LazyStar p) s1 c1 s2 c2
             \<Longrightarrow> rm N (LazyStar p) s c s2 c2"
| rm_Opt0: "rm N (Opt p) s c s c"
| rm_OptS: "rm N p s c s1 c1 \<Longrightarrow> rm N (Opt p) s c s1 c1"
| rm_Group: "rm N p s c s1 c1
             \<Longrightarrow> rm N (Group g p) s c s1 ((g, N - length s, N - length s1) # c1)"
| rm_Bol: "length s = N \<Longrightarrow> rm N Bol s c s c"
| rm_Eol: "rm N Eol [] c [] c"

fun fm :: "nat \<Rightarrow> frame \<Rightarrow> string \<Rightarrow> caps \<Rightarrow> string \<Rightarrow> caps \<Rightarrow> bool" where
  "fm N (R r) s c s' c' = rm N r s c s' c'"
| "fm N (StarChk n p) s c s' c' = rm N (Star p) s c s' c'"
| "fm N (LazyChk n p) s c s' c' = rm N (LazyStar p) s c s' c'"
| "fm N (OptChk n) s c s' c' = (s' = s \<and> c' = c)"
| "fm N (GroupEnd g b) s c s' c' = (s' = s \<and> c' = (g, b, N - length s) # c)"

fun km :: "nat \<Rightarrow> frame list \<Rightarrow> string \<Rightarrow> caps \<Rightarrow> string \<Rightarrow> caps \<Rightarrow> bool" where
  "km N [] s c s' c' = (s' = s \<and> c' = c)"
| "km N (f # k) s c s' c' = (\<exists>s1 c1. fm N f s c s1 c1 \<and> km N k s1 c1 s' c')"

section \<open>ContextAnalyzer\<close>

record TemplateContext =
  ctxType :: CtxType
  variableName :: "string option"
  fieldPath :: "string list option"

text \<open>The context \<^verbatim>\<open>{ type: 'unknown' }\<close>.\<close>

definition unknownContext :: TemplateContext where
  "unknownContext = \<lparr>ctxType = unknown, variableName = None, fieldPath = None\<rparr>"

abbreviation word1 :: regex where
  "word1 \<equiv> Plus (Atom WordCh)"

abbreviation spaces :: regex where
  "spaces \<equiv> Star (Atom SpaceCh)"

text \<open>\<^verbatim>\<open>/\$(\w+)((?:\.\w+)*)/\<close>\<close>

definition varPattern :: regex where
  "varPattern =
     seqs [Atom (Ch CHR ''$''), Group 1 word1,
           Group 2 (Star (Seq (Atom (Ch CHR ''.'')) word1))]"

text \<open>\<^verbatim>\<open>/\{\{\s*range\s+(?:\$\w+,\s*)?\$(\w+)\s*:=\s*([^\}]+)\}\}/g\<close>\<close>

definition rangePattern :: regex where
  "rangePattern =
     seqs [lit ''{{'', spaces, lit ''range'', Plus (Atom SpaceCh),
           Opt (seqs [Atom (Ch CHR ''$''), word1, Atom (Ch CHR '',''), spaces]),
           Atom (Ch CHR ''$''), Group 1 word1, spaces, lit '':='', spaces,
           Group 2 (Plus (Atom (NoneOf ''}''))), lit ''}}'']"

text \<open>
  \<^verbatim>\<open>inferContextFromSurrounding\<close>, split in two: the last \<^verbatim>\<open>range\<close> statement in the
  text from the start of the line fifty lines above (or of the first line) to the
  position, and the classification of that statement.
\<close>

definition textBefore :: "TextDocument \<Rightarrow> Position \<Rightarrow> string" where
  "textBefore document position =
     getTextRange document
       (Rng (Pos (nat (max 0 (int (line position) - 50))) 0) position)"

definition lastRange :: "TextDocument \<Rightarrow> Position \<Rightarrow> (string \<times> string) option" where
  "lastRange document position =
     (let tb = textBefore document position; matches = matchAll rangePattern tb
      in if length matches > 0
         then Some (group tb (last matches) 1, group tb (last matches) 2)
         else None)"

definition classifyRange :: "string \<Rightarrow> string \<Rightarrow> CtxType" where
  "classifyRange vname rangeExpression =
     (if str_includes rangeExpression ''endpoints'' \<or> str_includes rangeExpression ''.endpoints''
      then endpoint
      else if str_includes rangeExpression ''backends'' \<or> str_includes rangeExpression ''.backends''
              \<or> str_includes rangeExpression ''frontend_backends''
      then backend
      else if str_includes (toLowerCase vname) ''endpoint'' then endpoint
      else if str_includes (toLowerCase vname) ''backend'' then backend
      else unknown)"

definition inferContextFromSurrounding :: "TextDocument \<Rightarrow> Position \<Rightarrow> CtxType" where
  "inferContextFromSurrounding document position =
     (case lastRange document position of
        Some (vname, rangeExpression) \<Rightarrow> classifyRange vname rangeExpression
      | None \<Rightarrow> unknown)"

text \<open>The hint taken from the name of the variable under the cursor.\<close>

definition nameHint :: "string \<Rightarrow> CtxType" where
  "nameHint vname =
     (if vname = ''endpoint'' \<or> str_includes (toLowerCase vname) ''endpoint''
      then endpoint
      else if vname = ''backend'' \<or> str_includes (toLowerCase vname) ''backend''
      then backend
      else unknown)"

definition analyzeContext :: "TextDocument \<Rightarrow> Position \<Rightarrow> js_error + TemplateContext" where
  "analyzeContext document position =
     (case lineAt document (line position) of
        Inl e \<Rightarrow> Inl e
      | Inr ln \<Rightarrow>
          (let charBeforeCursor = character position;
               textBeforeCursor = take charBeforeCursor ln;
               lastOpen = lastIndexOf textBeforeCursor ''{{'';
               lastClose = lastIndexOf textBeforeCursor ''}}''
           in if lastOpen = -1 \<or> lastClose > lastOpen then Inr unknownContext
              else
                (let expression = trim (drop (nat (lastOpen + 2)) textBeforeCursor)
                 in case exec varPattern expression of
                      Some varMatch \<Rightarrow>
                        (let vname = group expression varMatch 1;
                             g2 = group expression varMatch 2;
                             fpath = (if truthy g2
                                      then filter truthy (split CHR ''.'' (drop 1 g2)) else []);
                             inferred = inferContextFromSurrounding document position;
                             ty = (if inferred = unknown then nameHint vname else inferred)
                         in Inr \<lparr>ctxType = ty, variableName = Some vname, fieldPath = Some fpath\<rparr>)
                    | None \<Rightarrow> Inr unknownContext)))"

section \<open>KrakenDDiagnosticsProvider\<close>

datatype DiagnosticSeverity = Error | Warning | Information | Hint

record Diagnostic =
  d_range :: Range
  message :: string
  severity :: DiagnosticSeverity
  source :: string
  code :: string

definition ctxName :: "CtxType \<Rightarrow> string" where
  "ctxName c = (case c of endpoint \<Rightarrow> ''endpoint'' | backend \<Rightarrow> ''backend'' | unknown \<Rightarrow> ''unknown'')"

text \<open>
  A loop whose body may throw: the first exception ends it, and the diagnostics pushed
  so far are lost with the local array.
\<close>

fun collect :: "('a \<Rightarrow> js_error + 'b list) \<Rightarrow> 'a list \<Rightarrow> js_error + 'b list" where
  "collect f [] = Inr []"
| "collect f (x # xs) =
     (case f x of
        Inl e \<Rightarrow> Inl e
      | Inr ds \<Rightarrow> (case collect f xs of Inl e \<Rightarrow> Inl e | Inr rest \<Rightarrow> Inr (ds @ rest)))"

subsection \<open>Levenshtein distance\<close>

text \<open>
  \<^verbatim>\<open>matrix[i][j] = v\<close>. The loops fill a row from left to right, so \<open>j\<close> is at most the
  length of the row and the assignment either overwrites a cell or appends one.
\<close>

definition set_cell :: "nat list list \<Rightarrow> nat \<Rightarrow> nat \<Rightarrow> nat \<Rightarrow> nat list list" where
  "set_cell matrix i j v =
     matrix[i := (let row = matrix ! i in if j < length row then row[j := v] else row @ [v])]"

text \<open>The value that the inner loop assigns to \<^verbatim>\<open>matrix[i][j]\<close>, and the inner loop for the row \<open>i\<close>.\<close>

definition cellValue :: "string \<Rightarrow> string \<Rightarrow> nat list list \<Rightarrow> nat \<Rightarrow> nat \<Rightarrow> nat" where
  "cellValue str1 str2 matrix i j =
     (if str2 ! (i - 1) = str1 ! (j - 1) then matrix ! (i - 1) ! (j - 1)
      else min (matrix ! (i - 1) ! (j - 1) + 1)
             (min (matrix ! i ! (j - 1) + 1) (matrix ! (i - 1) ! j + 1)))"

definition fillRow :: "string \<Rightarrow> string \<Rightarrow> nat list list \<Rightarrow> nat \<Rightarrow> nat list list" where
  "fillRow str1 str2 matrix i =
     foldl (\<lambda>matrix j. set_cell matrix i j (cellValue str1 str2 matrix i j)) matrix
       [1..<Suc (length str1)]"

definition levenshteinDistance :: "string \<Rightarrow> string \<Rightarrow> nat" where
  "levenshteinDistance str1 str2 =
     (let matrix0 = map (\<lambda>i. [i]) [0..<Suc (length str2)];
          matrix1 = foldl (\<lambda>matrix j. set_cell matrix 0 j j) matrix0 [0..<Suc (length str1)];
          matrix2 = foldl (fillRow str1 str2) matrix1 [1..<Suc (length str2)]
      in matrix2 ! length str2 ! length str1)"

text \<open>
  What the matrix holds, as a recurrence: the cell \<open>(i, j)\<close> is the edit distance
  between the first \<open>j\<close> characters of \<open>str1\<close> and the first \<open>i\<close> characters of \<open>str2\<close>.
\<close>

fun cellOf :: "string \<Rightarrow> string \<Rightarrow> nat \<Rightarrow> nat \<Rightarrow> nat" where
  "cellOf str1 str2 0 j = j"
| "cellOf str1 str2 (Suc i) 0 = Suc i"
| "cellOf str1 str2 (Suc i) (Suc j) =
     (if str2 ! i = str1 ! j then cellOf str1 str2 i j
      else min (cellOf str1 str2 i j + 1)
             (min (cellOf str1 str2 (Suc i) j + 1) (cellOf str1 str2 i (Suc j) + 1)))"

text \<open>
  The state of the matrix while it is filled: the rows above \<open>i\<close> are complete, the row
  \<open>i\<close> has its first \<open>j\<close> cells, the rows below have their first cell.
\<close>

definition matrix_inv :: "string \<Rightarrow> string \<Rightarrow> nat list list \<Rightarrow> nat \<Rightarrow> nat \<Rightarrow> bool" where
  "matrix_inv s t mx i j =
     (length mx = Suc (length t) \<and>
      (\<forall>i' \<le> length t. mx ! i' = map (cellOf s t i')
          [0..<(if i' < i then Suc (length s) else if i' = i then j else 1)]))"

text \<open>
  The same matrix computed a row at a time from the row above, for calculation:
  \<open>diag\<close>, \<open>up\<close> and \<open>left\<close> are the three neighbours of the cell.
\<close>

fun nextRow :: "char \<Rightarrow> string \<Rightarrow> nat list \<Rightarrow> nat \<Rightarrow> nat list" where
  "nextRow c (x # xs) (diag # up # prev) left =
     (let v = (if c = x then diag else min (diag + 1) (min (left + 1) (up + 1)))
      in v # nextRow c xs (up # prev) v)"
| "nextRow c xs prev left = []"

fun rowsFrom :: "string \<Rightarrow> nat \<Rightarrow> nat list \<Rightarrow> string \<Rightarrow> nat list" where
  "rowsFrom str1 i row [] = row"
| "rowsFrom str1 i row (c # cs) = rowsFrom str1 (Suc i) (Suc i # nextRow c str1 row (Suc i)) cs"

text \<open>The distance that \<^verbatim>\<open>findSimilarFields\<close> computes between the invalid name and a field name.\<close>

definition nameDistance :: "string \<Rightarrow> string \<Rightarrow> nat" where
  "nameDistance fieldName n = levenshteinDistance (toLowerCase fieldName) (toLowerCase n)"

text \<open>
  \<^verbatim>\<open>findSimilarFields\<close>. \<^verbatim>\<open>Array.prototype.sort\<close> is stable, and so is \<^const>\<open>sort_key\<close>:
  items at the same distance keep the order of the field list.
\<close>

definition findSimilarFields :: "SchemaParser \<Rightarrow> CtxType \<Rightarrow> string \<Rightarrow> string list" where
  "findSimilarFields st contextType fieldName =
     map fst
       (sort_key snd
          (filter (\<lambda>item. snd item \<le> 3)
             (map (\<lambda>f. (name f,
                         levenshteinDistance (toLowerCase fieldName) (toLowerCase (name f))))
                (getFields st contextType))))"

subsection \<open>Unknown fields\<close>

text \<open>\<^verbatim>\<open>/\{\{\s*\$(\w+)\.(\w+)/g\<close>\<close>

definition fieldPattern :: regex where
  "fieldPattern =
     seqs [lit ''{{'', spaces, Atom (Ch CHR ''$''), Group 1 word1, Atom (Ch CHR ''.''),
           Group 2 word1]"

text \<open>The start of the reference \<^verbatim>\<open>$variable.field\<close> inside a match, as an offset of the text.\<close>

definition matchStartOf :: "string \<Rightarrow> rmatch \<Rightarrow> nat" where
  "matchStartOf txt mt =
     nat (int (fst mt) +
          indexOf (matched txt mt) (''$'' @ group txt mt 1 @ ''.'' @ group txt mt 2))"

text \<open>The suggestions that the message of a diagnostic lists: \<^verbatim>\<open>suggestions.slice(0, 3)\<close>.\<close>

definition suggestedFields :: "SchemaParser \<Rightarrow> CtxType \<Rightarrow> string \<Rightarrow> string list" where
  "suggestedFields st contextType fieldName = take 3 (findSimilarFields st contextType fieldName)"

definition unknownFieldMessage :: "SchemaParser \<Rightarrow> CtxType \<Rightarrow> string \<Rightarrow> string" where
  "unknownFieldMessage st contextType fieldName =
     (let msg = ''Field '' @ [CHR 0x27] @ fieldName @ [CHR 0x27] @ '' does not exist in ''
                 @ ctxName contextType @ '' schema''
      in if length (findSimilarFields st contextType fieldName) > 0
         then msg @ ''. Did you mean: '' @ join '', '' (suggestedFields st contextType fieldName)
                @ ''?''
         else msg)"

text \<open>The body of the loop of \<^verbatim>\<open>updateDiagnostics\<close> for one match of the pattern.\<close>

definition fieldDiagnostic ::
  "SchemaParser \<Rightarrow> TextDocument \<Rightarrow> rmatch \<Rightarrow> js_error + Diagnostic list" where
  "fieldDiagnostic st document mt =
     (let txt = getText document;
          vname = group txt mt 1;
          fieldName = group txt mt 2;
          matchStart = matchStartOf txt mt;
          position = positionAt document matchStart
      in case analyzeContext document position of
           Inl e \<Rightarrow> Inl e
         | Inr ctx \<Rightarrow>
             if ctxType ctx = unknown then Inr []
             else if \<not> isValidField st (ctxType ctx) fieldName then
               Inr [\<lparr>d_range = Rng position
                               (positionAt document
                                  (matchStart + length (''$'' @ vname @ ''.'' @ fieldName))),
                     message = unknownFieldMessage st (ctxType ctx) fieldName,
                     severity = Warning,
                     source = ''KrakenD Schema'',
                     code = ''unknown-field''\<rparr>]
             else Inr [])"

definition unknownFieldPass :: "SchemaParser \<Rightarrow> TextDocument \<Rightarrow> js_error + Diagnostic list" where
  "unknownFieldPass st document =
     collect (fieldDiagnostic st document) (matchAll fieldPattern (getText document))"

subsection \<open>Enum values\<close>

text \<open>\<^verbatim>\<open>/"(\w+)":\s*"([^"]+)"/g\<close>\<close>

definition jsonValuePattern :: regex where
  \<open>jsonValuePattern =
     seqs [Atom (Ch CHR 0x22), Group 1 word1, Atom (Ch CHR 0x22), Atom (Ch CHR '':''), spaces,
           Atom (Ch CHR 0x22), Group 2 (Plus (Atom (NoneOf [CHR 0x22]))), Atom (Ch CHR 0x22)]\<close>

text \<open>The body of the inner loop of \<^verbatim>\<open>validateEnumValues\<close> for one match in one line.\<close>

definition enumDiagnostic ::
  "SchemaParser \<Rightarrow> TextDocument \<Rightarrow> string \<Rightarrow> nat \<Rightarrow> rmatch \<Rightarrow> js_error + Diagnostic list" where
  "enumDiagnostic st document ln lineIndex mt =
     (let fieldName = group ln mt 1;
          val = group ln mt 2
      in if str_includes val ''{{'' then Inr []
         else
           (case analyzeContext document (Pos lineIndex 0) of
              Inl e \<Rightarrow> Inl e
            | Inr ctx \<Rightarrow>
                if ctxType ctx \<noteq> unknown then
                  (case getEnumValues st (ctxType ctx) fieldName of
                     None \<Rightarrow> Inr []
                   | Some enumValues \<Rightarrow>
                       if length enumValues > 0 \<and> val \<notin> set enumValues then
                         (let valueStart =
                                nat (int (fst mt) +
                                     indexOf (matched ln mt) ([CHR 0x22] @ val @ [CHR 0x22]))
                          in Inr [\<lparr>d_range = Rng (Pos lineIndex valueStart)
                                                 (Pos lineIndex (valueStart + length val + 2)),
                                   message = ''Invalid value '' @ [CHR 0x27] @ val @ [CHR 0x27]
                                     @ '' for field '' @ [CHR 0x27] @ fieldName @ [CHR 0x27]
                                     @ ''. Expected one of: '' @ join '', '' enumValues,
                                   severity = Error,
                                   source = ''KrakenD Schema'',
                                   code = ''invalid-enum-value''\<rparr>])
                       else Inr [])
                else Inr []))"

definition validateEnumValues :: "SchemaParser \<Rightarrow> TextDocument \<Rightarrow> js_error + Diagnostic list" where
  "validateEnumValues st document =
     (let ls = split CHR 0x0A (getText document)
      in collect (\<lambda>(ln, lineIndex).
                    collect (enumDiagnostic st document ln lineIndex)
                      (matchAll jsonValuePattern ln))
           (zip ls [0..<length ls]))"

subsection \<open>Missing commas\<close>

text \<open>\<^verbatim>\<open>/^\s*\{\{[\s\S]*\}\}\s*$/\<close> and \<^verbatim>\<open>/\{\{[\s\S]*?\}\}/g\<close>\<close>

definition templateOnlyPattern :: regex where
  "templateOnlyPattern =
     seqs [Bol, spaces, lit ''{{'', Star (Atom AnyCh), lit ''}}'', spaces, Eol]"

definition inlineTemplatePattern :: regex where
  "inlineTemplatePattern = seqs [lit ''{{'', LazyStar (Atom AnyCh), lit ''}}'']"

definition cleanTemplateLine :: "string \<Rightarrow> string" where
  "cleanTemplateLine ln =
     (if test templateOnlyPattern ln then (if str_includes ln '','' then '','' else [])
      else (let cleaned = replaceRe inlineTemplatePattern ''0'' ln
            in if truthy (trim cleaned) then cleaned else []))"

text \<open>\<^verbatim>\<open>/"\s*[^"]+"\s*:/\<close> and \<^verbatim>\<open>/[{\[,]\s*$/\<close>\<close>

definition isJsonPropertyLine :: "string \<Rightarrow> bool" where
  \<open>isJsonPropertyLine ln =
     test (seqs [Atom (Ch CHR 0x22), spaces, Plus (Atom (NoneOf [CHR 0x22])), Atom (Ch CHR 0x22),
                 spaces, Atom (Ch CHR '':'')]) ln\<close>

definition lineAllowsNoComma :: "string \<Rightarrow> bool" where
  "lineAllowsNoComma ln = test (seqs [Atom (OneOf ''{[,''), spaces, Eol]) ln"

definition findNextNonEmptyLine :: "string list \<Rightarrow> nat \<Rightarrow> int" where
  "findNextNonEmptyLine ls start =
     (case filter (\<lambda>i. truthy (trim (ls ! i))) [start..<length ls] of
        [] \<Rightarrow> -1
      | i # rest \<Rightarrow> int i)"

text \<open>The body of the loop of \<^verbatim>\<open>validateTemplateJsonCommas\<close> for the line \<open>i\<close>.\<close>

definition commaDiagnostic :: "string list \<Rightarrow> string list \<Rightarrow> nat \<Rightarrow> Diagnostic list" where
  "commaDiagnostic rawLines cleanedLines i =
     (let ln = cleanedLines ! i
      in if \<not> truthy ln then []
         else
           (let trimmed = trim ln
            in if \<not> truthy trimmed \<or> trimmed = '','' then []
               else if \<not> isJsonPropertyLine trimmed then []
               else if lineAllowsNoComma trimmed then []
               else
                 (let nextIndex = findNextNonEmptyLine cleanedLines (i + 1)
                  in if nextIndex = -1 then []
                     else
                       (let nextLine = trim (cleanedLines ! nat nextIndex)
                        in if nextLine = '','' then []
                           else if startsWith nextLine [CHR 0x22] then
                             [\<lparr>d_range =
                                 Rng (Pos i (nat (max (int (length (rawLines ! i)) - 1) 0)))
                                     (Pos i (length (rawLines ! i))),
                               message = ''Possible missing comma before next JSON property'',
                               severity = Error,
                               source = ''Template JSON'',
                               code = ''missing-comma''\<rparr>]
                           else []))))"

definition validateTemplateJsonCommas :: "TextDocument \<Rightarrow> Diagnostic list" where
  "validateTemplateJsonCommas document =
     (if \<not> endsWith (fileName document) ''.json.tmpl'' then []
      else
        (let rawLines = split CHR 0x0A (getText document);
             cleanedLines = map cleanTemplateLine rawLines
         in concat (map (commaDiagnostic rawLines cleanedLines) [0..<length cleanedLines])))"

subsection \<open>The three passes\<close>

text \<open>
  \<^verbatim>\<open>updateDiagnostics\<close>: the list handed to the diagnostic collection of the editor, or
  \<open>None\<close> when the document is not a template and the collection is left alone.
\<close>

definition updateDiagnostics ::
  "SchemaParser \<Rightarrow> TextDocument \<Rightarrow> js_error + Diagnostic list option" where
  "updateDiagnostics st document =
     (if languageId document \<noteq> ''gotmpl'' then Inr None
      else
        (case unknownFieldPass st document of
           Inl e \<Rightarrow> Inl e
         | Inr fieldDiags \<Rightarrow>
             (case validateEnumValues st document of
                Inl e \<Rightarrow> Inl e
              | Inr enumDiags \<Rightarrow>
                  Inr (Some (fieldDiags @ enumDiags @ validateTemplateJsonCommas document)))))"

section \<open>KrakenDCompletionProvider\<close>

datatype CompletionItemKind = FieldKind | EnumMemberKind

text \<open>
  A completion item, without its Markdown documentation (a text for display built from
  the same field).
\<close>

record CompletionItem =
  label :: string
  kind :: CompletionItemKind
  detail :: "string option"
  insertText :: "string option"
  sortText :: "string option"
  filterText :: "string option"

datatype ProviderResult =
    CompletionList "CompletionItem list" bool
  | Items "CompletionItem list"
  | Undefined

definition createFieldCompletionItem :: "FieldInfo \<Rightarrow> string \<Rightarrow> CompletionItem" where
  "createFieldCompletionItem field ctx =
     \<lparr>label = name field,
      kind = FieldKind,
      detail = Some (type field @ (if required field then '' (required)'' else [])
                      @ '' - KrakenD '' @ ctx),
      insertText = None,
      sortText = Some (if required field then ''!0_'' @ name field else ''!1_'' @ name field),
      filterText = Some (name field)\<rparr>"

definition getFieldCompletions :: "SchemaParser \<Rightarrow> CtxType \<Rightarrow> string \<Rightarrow> CompletionItem list" where
  "getFieldCompletions st contextType partialField =
     map (\<lambda>field. createFieldCompletionItem field (ctxName contextType))
       (filter (\<lambda>field. str_includes (toLowerCase (name field)) (toLowerCase partialField))
          (getFields st contextType))"

definition getEnumCompletions :: "SchemaParser \<Rightarrow> CtxType \<Rightarrow> string \<Rightarrow> CompletionItem list" where
  "getEnumCompletions st contextType fieldName =
     (case getEnumValues st contextType fieldName of
        None \<Rightarrow> []
      | Some enumValues \<Rightarrow>
          if length enumValues = 0 then []
          else map (\<lambda>v. \<lparr>label = v, kind = EnumMemberKind,
                          detail = Some (''Valid '' @ fieldName @ '' value''),
                          insertText = Some v, sortText = None, filterText = None\<rparr>)
                 enumValues)"

text \<open>\<^verbatim>\<open>/\$(\w+)\.(\w*)$/\<close> and \<^verbatim>\<open>/"(\w+)":\s*"[^"]*$/\<close>\<close>

definition dotPattern :: regex where
  "dotPattern =
     seqs [Atom (Ch CHR ''$''), Group 1 word1, Atom (Ch CHR ''.''),
           Group 2 (Star (Atom WordCh)), Eol]"

definition jsonFieldPattern :: regex where
  \<open>jsonFieldPattern =
     seqs [Atom (Ch CHR 0x22), Group 1 word1, Atom (Ch CHR 0x22), Atom (Ch CHR '':''), spaces,
           Atom (Ch CHR 0x22), Star (Atom (NoneOf [CHR 0x22])), Eol]\<close>

definition detectEnumContext ::
  "TextDocument \<Rightarrow> Position \<Rightarrow> js_error + (CtxType \<times> string) option" where
  "detectEnumContext document position =
     (case lineAt document (line position) of
        Inl e \<Rightarrow> Inl e
      | Inr ln \<Rightarrow>
          (let tb = take (character position) ln
           in case exec jsonFieldPattern tb of
                Some jsonFieldMatch \<Rightarrow>
                  (case analyzeContext document position of
                     Inl e \<Rightarrow> Inl e
                   | Inr ctx \<Rightarrow>
                       if ctxType ctx \<noteq> unknown
                       then Inr (Some (ctxType ctx, group tb jsonFieldMatch 1))
                       else Inr None)
              | None \<Rightarrow> Inr None))"

text \<open>
  The first part of \<^verbatim>\<open>provideCompletionItems\<close>: the completion list it returns after
  \<^verbatim>\<open>$variable.\<close>, or \<open>None\<close> when it goes on to the enum values.
\<close>

definition fieldCompletionAt ::
  "SchemaParser \<Rightarrow> TextDocument \<Rightarrow> Position \<Rightarrow> string \<Rightarrow> js_error + ProviderResult option" where
  "fieldCompletionAt st document position tb =
     (case exec dotPattern tb of
        Some dotMatch \<Rightarrow>
          (case analyzeContext document position of
             Inl e \<Rightarrow> Inl e
           | Inr templateContext \<Rightarrow>
               if ctxType templateContext \<noteq> unknown
               then Inr (Some (CompletionList
                      (getFieldCompletions st (ctxType templateContext) (group tb dotMatch 2))
                      False))
               else Inr None)
      | None \<Rightarrow> Inr None)"

definition provideCompletionItems ::
  "SchemaParser \<Rightarrow> TextDocument \<Rightarrow> Position \<Rightarrow> js_error + ProviderResult" where
  "provideCompletionItems st document position =
     (case lineAt document (line position) of
        Inl e \<Rightarrow> Inl e
      | Inr ln \<Rightarrow>
          (case fieldCompletionAt st document position (take (character position) ln) of
             Inl e \<Rightarrow> Inl e
           | Inr (Some result) \<Rightarrow> Inr result
           | Inr None \<Rightarrow>
               (case detectEnumContext document position of
                  Inl e \<Rightarrow> Inl e
                | Inr (Some enumContext) \<Rightarrow>
                    Inr (Items (getEnumCompletions st (fst enumContext) (snd enumContext)))
                | Inr None \<Rightarrow> Inr Undefined)))"

section \<open>Sample documents\<close>

definition template :: "string \<Rightarrow> TextDocument" where
  "template txt = \<lparr>fileName = ''krakend.tmpl'', languageId = ''gotmpl'', getText = txt\<rparr>"

definition jsonTemplate :: "string \<Rightarrow> TextDocument" where
  "jsonTemplate txt = \<lparr>fileName = ''krakend.json.tmpl'', languageId = ''gotmpl'', getText = txt\<rparr>"

definition endpointsDoc :: TextDocument where
  "endpointsDoc = template ''{{ range $e := .endpoints }} {{ $e.method }} {{ end }}''"

definition backendsDoc :: TextDocument where
  "backendsDoc = template ''{{ range $b := .backends }} {{ $b.encoding }} {{ end }}''"

text \<open>The loop variable is called \<^verbatim>\<open>backend\<close>, the loop runs over the endpoints.\<close>

definition disagreeDoc :: TextDocument where
  "disagreeDoc = template ''{{ range $backend := .endpoints }} {{ $backend.method }} {{ end }}''"

text \<open>A misspelt field of an endpoint.\<close>

definition typoDoc :: TextDocument where
  "typoDoc = template ''{{ range $e := .endpoints }} {{ $e.methdo }} {{ end }}''"

text \<open>A field reference with no \<^verbatim>\<open>range\<close> statement around it and no hint in its name.\<close>

definition plainDoc :: TextDocument where
  "plainDoc = template ''{{ $x.foo }}''"

text \<open>A literal value outside the enum of \<^verbatim>\<open>method\<close>, on a line inside a loop over the endpoints.\<close>

definition enumDoc :: TextDocument where
  \<open>enumDoc = template
     (''{{ range $e := .endpoints }}'' @ [CHR 0x0A] @
      ''"method": "GETT"'' @ [CHR 0x0A] @
      ''{{ end }}'')\<close>

text \<open>Two property lines; the first one is the parameter.\<close>

definition commaDoc :: "string \<Rightarrow> TextDocument" where
  \<open>commaDoc first = jsonTemplate (first @ [CHR 0x0A] @ ''"b": 2'')\<close>

text \<open>
  A schema whose endpoint definition lists \<^verbatim>\<open>port\<close> before \<^verbatim>\<open>host\<close>; both are one edit
  away from \<^verbatim>\<open>post\<close>.
\<close>

definition tieSchema :: KrakenDSchema where
  "tieSchema =
     \<lparr>properties = Some [(''endpoints'', arrayOfRef ''#/definitions/endpoint.json'')],
      definitions = Some
        [(''endpoint.json'',
            objectDef [(''port'', typed ''integer''), (''host'', typed ''string'')] [])]\<rparr>"

definition tieStore :: SchemaParser where
  "tieStore = loadSchema (fixedRuntime (Some tieSchema)) ''krakendSchema.json''"

section \<open>Properties of the schema store\<close>

lemma set_update_subset: "set (AList.update k v m) \<subseteq> insert (k, v) (set m)"
  by (induction m) auto

lemma keys_named_update: "keys_named m \<Longrightarrow> name v = k \<Longrightarrow> keys_named (AList.update k v m)"
  using set_update_subset [of k v m] by (auto simp: keys_named_def)

lemma keys_named_parseFields: "keys_named m \<Longrightarrow> keys_named (parseFields props m req)"
  unfolding parseFields_def
  by (induction props arbitrary: m) (auto simp: keys_named_update mkField_def)

lemma keys_parseFields: "fst ` set (parseFields props m req) = fst ` set m \<union> fst ` set props"
  unfolding parseFields_def
  by (induction props arbitrary: m) (auto simp add: dom_update split_beta)

lemma store_ok_new: "store_ok newSchemaParser"
  by (simp add: store_ok_def newSchemaParser_def keys_named_def)

lemma store_ok_parseBackend: "store_ok st \<Longrightarrow> store_ok (snd (parseBackend rt sch ep st))"
  by (auto simp: parseBackend_def store_ok_def Let_def keys_named_parseFields split: sum.splits option.splits)

lemma store_ok_parseSchema: "store_ok st \<Longrightarrow> store_ok (snd (parseSchema rt st))"
  unfolding parseSchema_def Let_def
  by (auto simp: store_ok_def keys_named_parseFields intro!: store_ok_parseBackend[unfolded store_ok_def] split: sum.splits option.splits)

lemma store_ok_loadSchema: "store_ok (loadSchema rt p)"
  unfolding loadSchema_def
  by (auto simp: store_ok_new split: sum.splits intro!: store_ok_parseSchema)
     (simp add: store_ok_def newSchemaParser_def keys_named_def)

lemma findPrefixed_iff:
  "(findPrefixed m n ms \<noteq> None) = (\<exists>orig. (orig, n) \<in> set ms \<and> map_of m orig \<noteq> None)"
  by (induction m n ms rule: findPrefixed.induct) (auto split: option.splits)

lemma map_of_keys: "(\<exists>y. map_of m k = Some y) = (k \<in> fst ` set m)"
  using map_of_eq_None_iff [of m k] by auto

lemma isValidField_iff:
  "isValidField st ctx n =
     (n \<in> fst ` set (tableOf st ctx) \<or> (\<exists>orig. (orig, n) \<in> set fieldMappings \<and> orig \<in> fst ` set (tableOf st ctx)))"
proof (cases "map_of (tableOf st ctx) n")
  case None
  then have "n \<notin> fst ` set (tableOf st ctx)"
    by (simp add: map_of_eq_None_iff)
  with None show ?thesis
    using findPrefixed_iff [of "tableOf st ctx" n fieldMappings]
    by (simp add: isValidField_def getFieldInfo_def map_of_keys)
next
  case (Some f)
  then have "n \<in> fst ` set (tableOf st ctx)"
    using map_of_keys [of "tableOf st ctx" n] by simp
  with Some show ?thesis
    by (simp add: isValidField_def getFieldInfo_def)
qed

lemma keys_named_fst: "keys_named m \<Longrightarrow> fst ` set m = name ` snd ` set m"
  by (force simp: keys_named_def image_iff)

lemma withAliases_valid:
  assumes "keys_named m" "f \<in> set (withAliases m)"
  shows "name f \<in> fst ` set m \<or> (\<exists>orig. (orig, name f) \<in> set fieldMappings \<and> orig \<in> fst ` set m)"
proof -
  from assms(2) have "f \<in> snd ` set m \<or>
      (\<exists>field mapping. field \<in> snd ` set m \<and> map_of fieldMappings (name field) = Some mapping
          \<and> f = aliasOf field mapping (name field))"
    by (auto simp: withAliases_def split: option.splits if_splits) (metis image_eqI snd_conv)
  then consider (orig) "f \<in> snd ` set m"
    | (ali) field mapping where "field \<in> snd ` set m"
        "map_of fieldMappings (name field) = Some mapping" "f = aliasOf field mapping (name field)"
    by blast
  then show ?thesis
  proof cases
    case orig
    then show ?thesis using keys_named_fst [OF assms(1)] by auto
  next
    case ali
    from ali(2) have "(name field, mapping) \<in> set fieldMappings"
      by (rule map_of_SomeD)
    moreover have "name field \<in> fst ` set m"
      using ali(1) keys_named_fst [OF assms(1)] by auto
    moreover have "name f = mapping"
      using ali(3) by (simp add: aliasOf_def)
    ultimately show ?thesis by blast
  qed
qed

subsection \<open>Claims about the schema store\<close>

lemma loadSchema_failed:
  assumes "(\<exists>e. readFileSync rt path = Inl e) \<or>
           (\<exists>c e. readFileSync rt path = Inr c \<and> JSON_parse rt c = Inl e)"
  shows "loadSchema rt path = newSchemaParser"
  using assms by (auto simp: loadSchema_def)

lemma new_queries:
  "getFields newSchemaParser ctx = []"
  "getFieldInfo newSchemaParser ctx n = None"
  "\<not> isValidField newSchemaParser ctx n"
  "getEnumValues newSchemaParser ctx n = None"
proof -
  have t: "tableOf newSchemaParser ctx = []"
    by (simp add: tableOf_def newSchemaParser_def)
  have fp: "findPrefixed [] n ms = None" for ms
    by (induction ms) auto
  show "getFields newSchemaParser ctx = []"
    by (simp add: getFields_def getEndpointFields_def getBackendFields_def getRootFields_def
        withAliases_def newSchemaParser_def)
  show g: "getFieldInfo newSchemaParser ctx n = None"
    by (simp add: getFieldInfo_def t fp)
  show "\<not> isValidField newSchemaParser ctx n"
    by (simp add: isValidField_def g)
  show "getEnumValues newSchemaParser ctx n = None"
    by (simp add: getEnumValues_def g)
qed

text \<open>
  Claim C9. When reading the schema file throws, or \<^verbatim>\<open>JSON.parse\<close> throws on its text,
  \<^verbatim>\<open>loadSchema\<close> still returns (it is a total function into stores: the \<^verbatim>\<open>catch\<close>
  block lets nothing escape), the store is the empty one, and every query answers
  empty or absent: \<^verbatim>\<open>getFields\<close> is the empty list, \<^verbatim>\<open>getFieldInfo\<close> and
  \<^verbatim>\<open>getEnumValues\<close> are absent, \<^verbatim>\<open>isValidField\<close> is false.
\<close>

theorem load_failure_leaves_empty_store:
  assumes "(\<exists>e. readFileSync rt path = Inl e) \<or>
           (\<exists>c e. readFileSync rt path = Inr c \<and> JSON_parse rt c = Inl e)"
  shows "loadSchema rt path = newSchemaParser
       \<and> getFields (loadSchema rt path) ctx = []
       \<and> getFieldInfo (loadSchema rt path) ctx n = None
       \<and> \<not> isValidField (loadSchema rt path) ctx n
       \<and> getEnumValues (loadSchema rt path) ctx n = None"
  using loadSchema_failed [OF assms] by (simp add: new_queries)

text \<open>
  Witness for C9: a platform whose file read throws, and one whose parse throws.
\<close>

theorem load_failure_leaves_empty_store_witness:
  "(readFileSync unreadableRuntime ''krakendSchema.json'' = Inl IOError
     \<and> getFields (loadSchema unreadableRuntime ''krakendSchema.json'') endpoint = []
     \<and> \<not> isValidField (loadSchema unreadableRuntime ''krakendSchema.json'') endpoint ''url'')
   \<and> (readFileSync unparsableRuntime ''krakendSchema.json'' = Inr ''{''
     \<and> JSON_parse unparsableRuntime ''{'' = Inl SyntaxError
     \<and> getFields (loadSchema unparsableRuntime ''krakendSchema.json'') backend = []
     \<and> getEnumValues (loadSchema unparsableRuntime ''krakendSchema.json'') unknown ''version'' = None)"
proof -
  have a: "readFileSync unreadableRuntime ''krakendSchema.json'' = Inl IOError"
    by (simp add: unreadableRuntime_def)
  have b: "readFileSync unparsableRuntime ''krakendSchema.json'' = Inr ''{''"
    "JSON_parse unparsableRuntime ''{'' = Inl SyntaxError"
    by (simp_all add: unparsableRuntime_def)
  have ha: "(\<exists>e. readFileSync unreadableRuntime ''krakendSchema.json'' = Inl e) \<or>
           (\<exists>c e. readFileSync unreadableRuntime ''krakendSchema.json'' = Inr c
              \<and> JSON_parse unreadableRuntime c = Inl e)"
    using a by blast
  have hb: "(\<exists>e. readFileSync unparsableRuntime ''krakendSchema.json'' = Inl e) \<or>
           (\<exists>c e. readFileSync unparsableRuntime ''krakendSchema.json'' = Inr c
              \<and> JSON_parse unparsableRuntime c = Inl e)"
    using b by blast
  show ?thesis
    using a b load_failure_leaves_empty_store [OF ha, of endpoint "''url''"]
      load_failure_leaves_empty_store [OF hb, of backend "[]"]
      load_failure_leaves_empty_store [OF hb, of unknown "''version''"]
    by blast
qed

text \<open>
  Claim C8. Round trip: for every shape, every entry that \<^verbatim>\<open>getFields\<close> returns for it
  on a loaded store, alias entries included, has a name that \<^verbatim>\<open>isValidField\<close> accepts
  for the same shape. The root shape is the one selected by the context \<open>unknown\<close>.
\<close>

theorem getFields_roundtrip:
  "\<forall>f \<in> set (getFields (loadSchema rt path) ctx).
      isValidField (loadSchema rt path) ctx (name f)"
proof
  fix f
  let ?st = "loadSchema rt path"
  assume f: "f \<in> set (getFields ?st ctx)"
  have ok: "keys_named (tableOf ?st ctx)"
    using store_ok_loadSchema [of rt path] by (simp add: store_ok_def tableOf_def)
  show "isValidField ?st ctx (name f)"
  proof (cases "ctx = endpoint \<or> ctx = backend")
    case True
    then have "f \<in> set (withAliases (tableOf ?st ctx))"
      using f by (auto simp: getFields_def getEndpointFields_def getBackendFields_def tableOf_def)
    from withAliases_valid [OF ok this] show ?thesis
      by (simp add: isValidField_iff)
  next
    case False
    then have "f \<in> snd ` set (tableOf ?st ctx)"
      using f by (auto simp: getFields_def getRootFields_def tableOf_def)
    then have "name f \<in> fst ` set (tableOf ?st ctx)"
      using keys_named_fst [OF ok] by auto
    then show ?thesis
      by (simp add: isValidField_iff)
  qed
qed

lemmas sample_eval_defs =
  sampleStore_def clashStore_def loadSchema_def fixedRuntime_def sampleSchema_def clashSchema_def
  parseSchema_def parseBackend_def itemsRef_def arrayOfRef_def truthy_opt_def truthy_def
  resolveRef_def objectDef_def enumerated_def typed_def newSchemaParser_def parseFields_def
  getFields_def getEndpointFields_def getBackendFields_def getRootFields_def withAliases_def
  mkField_def fieldMappings_def aliasOf_def descriptionOf_def endpointDef_def
  getFieldInfo_def isValidField_def getEnumValues_def tableOf_def Let_def

text \<open>
  Witness for C8: the alias entry \<^verbatim>\<open>endpoint_url\<close> of the sample store.
\<close>

theorem getFields_roundtrip_witness:
  "getFields sampleStore endpoint ! 4 \<in> set (getFields sampleStore endpoint)
   \<and> name (getFields sampleStore endpoint ! 4) = ''endpoint_url''
   \<and> isValidField sampleStore endpoint ''endpoint_url''"
proof -
  have mem: "getFields sampleStore endpoint ! 4 \<in> set (getFields sampleStore endpoint)"
    by (simp add: sample_eval_defs)
  have nm: "name (getFields sampleStore endpoint ! 4) = ''endpoint_url''"
    by (simp add: sample_eval_defs)
  from getFields_roundtrip [of "fixedRuntime (Some sampleSchema)" "''krakendSchema.json''" endpoint]
  have "isValidField sampleStore endpoint (name (getFields sampleStore endpoint ! 4))"
    using mem unfolding sampleStore_def by blast
  with mem nm show ?thesis by simp
qed

text \<open>
  Claim C10. At the interface of the store the context \<open>unknown\<close> is not rejected: it
  selects the root table, as does every context other than \<open>endpoint\<close> and
  \<open>backend\<close>. \<^verbatim>\<open>isValidField(unknown, n)\<close> holds exactly when \<open>n\<close> is the name of a
  root field or the alias, in \<^verbatim>\<open>fieldMappings\<close>, of a root field.
\<close>

theorem unknown_context_is_root_shape:
  "isValidField (loadSchema rt path) unknown n =
     (n \<in> name ` set (getRootFields (loadSchema rt path)) \<or>
      (\<exists>original. (original, n) \<in> set fieldMappings
          \<and> original \<in> name ` set (getRootFields (loadSchema rt path))))
   \<and> getFieldInfo (loadSchema rt path) unknown n =
       (case map_of (rootFields (loadSchema rt path)) n of
          Some field \<Rightarrow> Some field
        | None \<Rightarrow> findPrefixed (rootFields (loadSchema rt path)) n fieldMappings)
   \<and> (\<forall>ctx. ctx \<noteq> endpoint \<longrightarrow> ctx \<noteq> backend \<longrightarrow>
         getFieldInfo (loadSchema rt path) ctx n = getFieldInfo (loadSchema rt path) unknown n)"
proof -
  let ?st = "loadSchema rt path"
  have t: "tableOf ?st unknown = rootFields ?st"
    by (simp add: tableOf_def)
  have "keys_named (rootFields ?st)"
    using store_ok_loadSchema [of rt path] by (simp add: store_ok_def)
  then have k: "fst ` set (rootFields ?st) = name ` set (getRootFields ?st)"
    using keys_named_fst by (simp add: getRootFields_def)
  have 1: "isValidField ?st unknown n =
     (n \<in> name ` set (getRootFields ?st) \<or>
      (\<exists>original. (original, n) \<in> set fieldMappings \<and> original \<in> name ` set (getRootFields ?st)))"
    using isValidField_iff [of ?st unknown n] by (simp only: t k)
  have 2: "getFieldInfo ?st unknown n =
       (case map_of (rootFields ?st) n of
          Some field \<Rightarrow> Some field
        | None \<Rightarrow> findPrefixed (rootFields ?st) n fieldMappings)"
    by (simp add: getFieldInfo_def t Let_def)
  have 3: "\<forall>ctx. ctx \<noteq> endpoint \<longrightarrow> ctx \<noteq> backend \<longrightarrow>
         getFieldInfo ?st ctx n = getFieldInfo ?st unknown n"
    by (simp add: getFieldInfo_def tableOf_def)
  from 1 2 3 show ?thesis by blast
qed

text \<open>
  Witness for C10: on the sample store, a root field, the alias of a root field, and a
  name that is neither.
\<close>

theorem unknown_context_is_root_shape_witness:
  "unknown \<noteq> endpoint \<and> unknown \<noteq> backend
   \<and> map name (getRootFields sampleStore) = [''version'', ''output_encoding'', ''endpoints'']
   \<and> (''output_encoding'', ''endpoint_output_encoding'') \<in> set fieldMappings
   \<and> isValidField sampleStore unknown ''version''
   \<and> isValidField sampleStore unknown ''endpoint_output_encoding''
   \<and> \<not> isValidField sampleStore unknown ''url''"
proof -
  have r: "map name (getRootFields sampleStore) = [''version'', ''output_encoding'', ''endpoints'']"
    by (simp add: sample_eval_defs)
  then have s: "name ` set (getRootFields sampleStore) = {''version'', ''output_encoding'', ''endpoints''}"
    by (metis list.set_map list.simps(15) empty_set)
  have m: "(''output_encoding'', ''endpoint_output_encoding'') \<in> set fieldMappings"
    by (simp add: fieldMappings_def)
  have u: "\<not> (\<exists>original. (original, ''url'') \<in> set fieldMappings
          \<and> original \<in> {''version'', ''output_encoding'', ''endpoints''})"
    by (auto simp: fieldMappings_def)
  note th = unknown_context_is_root_shape
    [of "fixedRuntime (Some sampleSchema)" "''krakendSchema.json''", folded sampleStore_def]
  have a: "isValidField sampleStore unknown ''version''"
    using th [of "''version''"] by (simp add: s)
  have b: "isValidField sampleStore unknown ''endpoint_output_encoding''"
    using th [of "''endpoint_output_encoding''"] m by (auto simp add: s)
  have c: "\<not> isValidField sampleStore unknown ''url''"
    using th [of "''url''"] u by (simp add: s)
  from r m a b c show ?thesis by simp
qed

lemma endpointFields_parseBackend:
  "endpointFields (snd (parseBackend rt sch ep st)) = endpointFields st"
  by (auto simp: parseBackend_def Let_def split: sum.splits option.splits)

lemma endpointFields_loadSchema:
  assumes "readFileSync rt path = Inr content" "JSON_parse rt content = Inr (Some sch)"
    and "endpointDef rt sch = Some ed" "p_properties ed = Some eprops"
  shows "endpointFields (loadSchema rt path) =
           parseFields eprops [] (case p_required ed of None \<Rightarrow> [] | Some r \<Rightarrow> r)"
  using assms
  by (auto simp: loadSchema_def parseSchema_def endpointDef_def Let_def newSchemaParser_def
      endpointFields_parseBackend split: option.splits sum.splits if_splits)

lemma alias_lookup:
  assumes "map_of m original = Some f" "map_of m prefixed = None"
    and "map_of fieldMappings' original = Some prefixed" "distinct (map snd fieldMappings')"
  shows "findPrefixed m prefixed fieldMappings' = Some (aliasOf f prefixed original)"
  using assms(3,4)
proof (induction fieldMappings')
  case Nil
  then show ?case by simp
next
  case (Cons p ps)
  obtain o' p' where p: "p = (o', p')" by (cases p)
  show ?case
  proof (cases "p' = prefixed")
    case True
    have "o' = original"
    proof (rule ccontr)
      assume "o' \<noteq> original"
      with Cons.prems(1) p have "map_of ps original = Some prefixed" by simp
      then have "prefixed \<in> snd ` set ps" by (force dest: map_of_SomeD)
      with Cons.prems(2) p True show False by simp
    qed
    with True p assms(1) show ?thesis by simp
  next
    case False
    with Cons.prems p have "map_of ps original = Some prefixed" "distinct (map snd ps)"
      by (auto split: if_splits)
    with Cons.IH False p show ?thesis by simp
  qed
qed

text \<open>
  Claim C3, as amended. For a schema that loads and whose endpoint definition has a
  property \<^verbatim>\<open>url\<close>, \<^verbatim>\<open>isValidField(endpoint, "endpoint_url")\<close> is true; and when the
  endpoint definition has no property that is itself named \<^verbatim>\<open>endpoint_url\<close>, the
  \<^verbatim>\<open>FieldInfo\<close> returned for the alias name has the \<^verbatim>\<open>required\<close> and \<^verbatim>\<open>enum\<close> of the
  canonical \<^verbatim>\<open>url\<close> field.
\<close>

theorem alias_reports_canonical_metadata:
  assumes "readFileSync rt path = Inr content" and "JSON_parse rt content = Inr (Some sch)"
    and "endpointDef rt sch = Some ed" and "p_properties ed = Some eprops"
    and "''url'' \<in> fst ` set eprops"
  shows "isValidField (loadSchema rt path) endpoint ''endpoint_url''
       \<and> (''endpoint_url'' \<notin> fst ` set eprops \<longrightarrow>
            (\<exists>f g. getFieldInfo (loadSchema rt path) endpoint ''url'' = Some f
                \<and> getFieldInfo (loadSchema rt path) endpoint ''endpoint_url'' = Some g
                \<and> name g = ''endpoint_url''
                \<and> required g = required f \<and> enum g = enum f))"
proof -
  let ?st = "loadSchema rt path"
  have keys: "fst ` set (tableOf ?st endpoint) = fst ` set eprops"
    using endpointFields_loadSchema [OF assms(1-4)]
    by (simp add: tableOf_def keys_parseFields)
  have mp: "(''url'', ''endpoint_url'') \<in> set fieldMappings"
    by (simp add: fieldMappings_def)
  have valid: "isValidField ?st endpoint ''endpoint_url''"
    using isValidField_iff [of ?st endpoint "''endpoint_url''"] keys assms(5) mp by blast
  have rest: "\<exists>f g. getFieldInfo ?st endpoint ''url'' = Some f
                \<and> getFieldInfo ?st endpoint ''endpoint_url'' = Some g
                \<and> name g = ''endpoint_url''
                \<and> required g = required f \<and> enum g = enum f"
    if no: "''endpoint_url'' \<notin> fst ` set eprops"
  proof -
    from assms(5) keys obtain f where f: "map_of (tableOf ?st endpoint) ''url'' = Some f"
      using map_of_keys [of "tableOf ?st endpoint" "''url''"] by auto
    from no keys have n: "map_of (tableOf ?st endpoint) ''endpoint_url'' = None"
      by (simp add: map_of_eq_None_iff)
    have "findPrefixed (tableOf ?st endpoint) ''endpoint_url'' fieldMappings
            = Some (aliasOf f ''endpoint_url'' ''url'')"
      by (rule alias_lookup [OF f n]) (simp_all add: fieldMappings_def)
    with f n show ?thesis
      by (simp add: getFieldInfo_def aliasOf_def)
  qed
  from valid rest show ?thesis by blast
qed

text \<open>
  Witness for C3: the sample schema.
\<close>

theorem alias_reports_canonical_metadata_witness:
  "readFileSync (fixedRuntime (Some sampleSchema)) ''krakendSchema.json'' = Inr []
   \<and> JSON_parse (fixedRuntime (Some sampleSchema)) [] = Inr (Some sampleSchema)
   \<and> map fst (the (p_properties (the (endpointDef (fixedRuntime (Some sampleSchema)) sampleSchema))))
        = [''endpoint'', ''url'', ''method'', ''backend'']
   \<and> isValidField sampleStore endpoint ''endpoint_url''
   \<and> map_option required (getFieldInfo sampleStore endpoint ''endpoint_url'')
        = map_option required (getFieldInfo sampleStore endpoint ''url'')
   \<and> map_option enum (getFieldInfo sampleStore endpoint ''endpoint_url'')
        = map_option enum (getFieldInfo sampleStore endpoint ''url'')"
proof -
  let ?rt = "fixedRuntime (Some sampleSchema)"
  let ?eprops = "[(''endpoint'', typed ''string''),
               (''url'', enumerated [''/a'', ''/b'']),
               (''method'', enumerated [''GET'', ''POST'', ''PUT'']),
               (''backend'', arrayOfRef ''#/definitions/backend.json'')]"
  let ?ed = "objectDef ?eprops [''endpoint'', ''url'']"
  have a: "readFileSync ?rt ''krakendSchema.json'' = Inr []"
    and b: "JSON_parse ?rt [] = Inr (Some sampleSchema)"
    by (simp_all add: fixedRuntime_def)
  have c: "endpointDef ?rt sampleSchema = Some ?ed"
    by (simp add: endpointDef_def sampleSchema_def itemsRef_def arrayOfRef_def truthy_opt_def
        truthy_def resolveRef_def fixedRuntime_def)
  have d: "p_properties ?ed = Some ?eprops"
    by (simp add: objectDef_def)
  have e: "''url'' \<in> fst ` set ?eprops" and f: "''endpoint_url'' \<notin> fst ` set ?eprops"
    by simp_all
  from alias_reports_canonical_metadata [OF a b c d e] f
  show ?thesis
    using a b c d unfolding sampleStore_def by auto
qed

text \<open>
  Counterexample to C3 as stated: \<^verbatim>\<open>getFieldInfo\<close> looks the name up in the table
  before it consults the alias table, so a property of the endpoint definition that is
  itself named \<^verbatim>\<open>endpoint_url\<close> answers for that name, with its own \<^verbatim>\<open>required\<close> and
  \<^verbatim>\<open>enum\<close>.
\<close>

theorem alias_shadowed_by_own_property_counterexample:
  "''url'' \<in> fst ` set (the (p_properties (the (endpointDef (fixedRuntime (Some clashSchema)) clashSchema))))
   \<and> map_option enum (getFieldInfo clashStore endpoint ''url'') = Some (Some [''/a''])
   \<and> map_option enum (getFieldInfo clashStore endpoint ''endpoint_url'') = Some (Some [''/b''])
   \<and> map_option enum (getFieldInfo clashStore endpoint ''endpoint_url'')
        \<noteq> map_option enum (getFieldInfo clashStore endpoint ''url'')
   \<and> map_option required (getFieldInfo clashStore endpoint ''endpoint_url'')
        \<noteq> map_option required (getFieldInfo clashStore endpoint ''url'')"
  by (simp add: sample_eval_defs)

section \<open>The Levenshtein matrix\<close>

lemma cellOf_0 [simp]: "cellOf s t i 0 = i"
  by (cases i) auto

lemma inv_init: "matrix_inv s t (map (\<lambda>i. [i]) [0..<Suc (length t)]) 0 1"
proof -
  have "map (\<lambda>i. [i]) [0..<Suc (length t)] ! i' = [i']" if "i' \<le> length t" for i'
    using that nth_map_upt [of i' "Suc (length t)" 0 "\<lambda>i. [i]"] by simp
  then show ?thesis
    unfolding matrix_inv_def by simp
qed

lemma inv_row0_step:
  assumes "matrix_inv s t mx 0 (max 1 j)"
  shows "matrix_inv s t (set_cell mx 0 j j) 0 (Suc j)"
proof (cases j)
  case 0
  with assms have "mx ! 0 = [0]" by (simp add: matrix_inv_def)
  then have "set_cell mx 0 0 0 = mx"
    by (simp add: set_cell_def) (metis list_update_id)
  with assms 0 show ?thesis by simp
next
  case (Suc k)
  with assms have i: "matrix_inv s t mx 0 j" by simp
  then have r: "mx ! 0 = map (cellOf s t 0) [0..<j]" by (simp add: matrix_inv_def)
  then have "set_cell mx 0 j j = mx[0 := map (cellOf s t 0) [0..<Suc j]]"
    by (simp add: set_cell_def)
  with i show ?thesis
    by (auto simp: matrix_inv_def nth_list_update)
qed

lemma inv_row0:
  assumes "matrix_inv s t mx 0 1"
  shows "matrix_inv s t (foldl (\<lambda>matrix j. set_cell matrix 0 j j) mx [0..<k]) 0 (max 1 k)"
proof (induction k)
  case 0
  with assms show ?case by simp
next
  case (Suc k)
  from inv_row0_step [OF Suc] show ?case by simp
qed

lemma inv_next_row:
  assumes "matrix_inv s t mx i (Suc (length s))"
  shows "matrix_inv s t mx (Suc i) 1"
  unfolding matrix_inv_def
proof (intro conjI allI impI)
  show "length mx = Suc (length t)" using assms by (simp add: matrix_inv_def)
next
  fix i' assume le: "i' \<le> length t"
  from assms le have r: "mx ! i' = map (cellOf s t i')
          [0..<(if i' < i then Suc (length s) else if i' = i then Suc (length s) else 1)]"
    by (simp only: matrix_inv_def)
  show "mx ! i' = map (cellOf s t i')
          [0..<(if i' < Suc i then Suc (length s) else if i' = Suc i then 1 else 1)]"
  proof (cases "i' < Suc i")
    case True
    then have "i' < i \<or> i' = i" by auto
    with r True show ?thesis by (auto simp only: if_True if_False split: if_splits)
  next
    case False
    then have "\<not> i' < i" "i' \<noteq> i" by auto
    with r False show ?thesis by (simp only: if_False if_cancel)
  qed
qed

lemma inv_cell_step:
  assumes "matrix_inv s t mx i j" and "0 < i" "i \<le> length t" "0 < j" "j \<le> length s"
  shows "matrix_inv s t (set_cell mx i j (cellValue s t mx i j)) i (Suc j)"
proof -
  obtain i0 j0 where ij: "i = Suc i0" "j = Suc j0"
    using assms(2,4) by (metis Suc_pred)
  have "i0 \<le> length t" "i0 < i" using assms(3) ij by auto
  then have prev: "mx ! i0 = map (cellOf s t i0) [0..<Suc (length s)]"
    using assms(1) by (simp only: matrix_inv_def if_True)
  have cur: "mx ! i = map (cellOf s t i) [0..<j]"
    using assms(1,3) by (simp add: matrix_inv_def)
  have a: "mx ! i0 ! j0 = cellOf s t i0 j0"
    unfolding prev using assms(5) ij nth_map_upt [of j0 "Suc (length s)" 0 "cellOf s t i0"] by simp
  have b: "mx ! i0 ! j = cellOf s t i0 j"
    unfolding prev using assms(5) nth_map_upt [of j "Suc (length s)" 0 "cellOf s t i0"] by simp
  have c: "mx ! i ! j0 = cellOf s t i j0"
    unfolding cur using ij nth_map_upt [of j0 j 0 "cellOf s t i"] by simp
  have v: "cellValue s t mx i j = cellOf s t i j"
    using a b c ij by (simp add: cellValue_def)
  have len: "length (mx ! i) = j" using cur by simp
  have "set_cell mx i j (cellOf s t i j) = mx[i := map (cellOf s t i) [0..<Suc j]]"
    using cur len by (simp add: set_cell_def)
  with assms(1,3) show ?thesis
    unfolding v by (auto simp: matrix_inv_def nth_list_update)
qed

lemma inv_inner:
  assumes "matrix_inv s t mx i 1" and "0 < i" "i \<le> length t" "k \<le> length s"
  shows "matrix_inv s t
           (foldl (\<lambda>matrix j. set_cell matrix i j (cellValue s t matrix i j)) mx [1..<Suc k])
           i (Suc k)"
  using assms(4)
proof (induction k)
  case 0
  with assms(1) show ?case by simp
next
  case (Suc k)
  then have "matrix_inv s t
           (foldl (\<lambda>matrix j. set_cell matrix i j (cellValue s t matrix i j)) mx [1..<Suc k])
           i (Suc k)" by simp
  from inv_cell_step [OF this assms(2,3) _ Suc.prems] show ?case
    by simp
qed

lemma inv_fillRow:
  assumes "matrix_inv s t mx i 1" and "0 < i" "i \<le> length t"
  shows "matrix_inv s t (fillRow s t mx i) (Suc i) 1"
  unfolding fillRow_def
  by (rule inv_next_row [OF inv_inner [OF assms order_refl]])

lemma inv_outer:
  assumes "matrix_inv s t mx 1 1" and "k \<le> length t"
  shows "matrix_inv s t (foldl (fillRow s t) mx [1..<Suc k]) (Suc k) 1"
  using assms(2)
proof (induction k)
  case 0
  with assms(1) show ?case by simp
next
  case (Suc k)
  then have "matrix_inv s t (foldl (fillRow s t) mx [1..<Suc k]) (Suc k) 1" by simp
  from inv_fillRow [OF this _ Suc.prems] show ?case
    by simp
qed

lemma levenshteinDistance_cellOf:
  "levenshteinDistance str1 str2 = cellOf str1 str2 (length str2) (length str1)"
proof -
  let ?m0 = "map (\<lambda>i. [i]) [0..<Suc (length str2)]"
  let ?m1 = "foldl (\<lambda>matrix j. set_cell matrix 0 j j) ?m0 [0..<Suc (length str1)]"
  let ?m2 = "foldl (fillRow str1 str2) ?m1 [1..<Suc (length str2)]"
  have "matrix_inv str1 str2 ?m1 0 (Suc (length str1))"
    using inv_row0 [OF inv_init, of str1 str2 "Suc (length str1)"] by simp
  then have "matrix_inv str1 str2 ?m1 1 1"
    using inv_next_row [of str1 str2 ?m1 0] by simp
  from inv_outer [OF this order_refl]
  have "matrix_inv str1 str2 ?m2 (Suc (length str2)) 1" .
  then have "?m2 ! length str2 = map (cellOf str1 str2 (length str2)) [0..<Suc (length str1)]"
    by (simp add: matrix_inv_def)
  then have "?m2 ! length str2 ! length str1 = cellOf str1 str2 (length str2) (length str1)"
    using nth_map_upt [of "length str1" "Suc (length str1)" 0 "cellOf str1 str2 (length str2)"]
    by simp
  then show ?thesis
    by (simp add: levenshteinDistance_def Let_def)
qed


lemma nextRow_cellOf:
  assumes "i < length t" "j \<le> length s"
  shows "nextRow (t ! i) (drop j s) (map (cellOf s t i) [j..<Suc (length s)]) (cellOf s t (Suc i) j)
           = map (cellOf s t (Suc i)) [Suc j..<Suc (length s)]"
  using assms(2)
proof (induction "length s - j" arbitrary: j)
  case 0
  then have "j = length s" by simp
  then show ?case by simp
next
  case (Suc d)
  then have lt: "j < length s" by simp
  then have dr: "drop j s = s ! j # drop (Suc j) s"
    by (simp add: Cons_nth_drop_Suc)
  have up: "[j..<Suc (length s)] = j # Suc j # [Suc (Suc j)..<Suc (length s)]"
    using lt by (simp add: upt_rec)
  have up': "[Suc j..<Suc (length s)] = Suc j # [Suc (Suc j)..<Suc (length s)]"
    using lt by (simp add: upt_rec)
  have ih: "nextRow (t ! i) (drop (Suc j) s) (map (cellOf s t i) [Suc j..<Suc (length s)])
              (cellOf s t (Suc i) (Suc j))
           = map (cellOf s t (Suc i)) [Suc (Suc j)..<Suc (length s)]"
    using Suc.hyps(1) [of "Suc j"] Suc.hyps(2) lt by simp
  show ?case
    unfolding dr up
    using ih unfolding up'
    by (simp add: Let_def)
qed

lemma rowsFrom_cellOf:
  assumes "i \<le> length t"
  shows "rowsFrom s i (map (cellOf s t i) [0..<Suc (length s)]) (drop i t)
           = map (cellOf s t (length t)) [0..<Suc (length s)]"
  using assms
proof (induction "length t - i" arbitrary: i)
  case 0
  then show ?case by simp
next
  case (Suc d)
  then have lt: "i < length t" by simp
  then have dr: "drop i t = t ! i # drop (Suc i) t"
    by (simp add: Cons_nth_drop_Suc)
  have n: "nextRow (t ! i) s (map (cellOf s t i) [0..<Suc (length s)]) (Suc i)
               = map (cellOf s t (Suc i)) [Suc 0..<Suc (length s)]"
    using nextRow_cellOf [OF lt, of 0 s] by (simp del: upt_Suc)
  have "map (cellOf s t (Suc i)) [0..<Suc (length s)]
          = Suc i # map (cellOf s t (Suc i)) [Suc 0..<Suc (length s)]"
    by (subst upt_conv_Cons) (simp_all del: upt_Suc)
  with n have row: "Suc i # nextRow (t ! i) s (map (cellOf s t i) [0..<Suc (length s)]) (Suc i)
               = map (cellOf s t (Suc i)) [0..<Suc (length s)]"
    by (simp del: upt_Suc)
  show ?case
    unfolding dr rowsFrom.simps row
    using Suc.hyps(1) [of "Suc i"] Suc.hyps(2) lt by simp
qed

lemma levenshteinDistance_rows:
  "levenshteinDistance str1 str2 = last (rowsFrom str1 0 [0..<Suc (length str1)] str2)"
proof -
  have "map (cellOf str1 str2 0) [0..<Suc (length str1)] = [0..<Suc (length str1)]"
    by (simp add: map_idI del: upt_Suc)
  with rowsFrom_cellOf [of 0 str2 str1]
  have "rowsFrom str1 0 [0..<Suc (length str1)] str2
          = map (cellOf str1 str2 (length str2)) [0..<Suc (length str1)]"
    by simp
  then show ?thesis
    by (simp add: levenshteinDistance_cellOf)
qed

section \<open>The matcher is sound for the declarative semantics\<close>

inductive_cases rm_EpsE: "rm N Eps s c s' c'"
inductive_cases rm_AtomE: "rm N (Atom a) s c s' c'"
inductive_cases rm_SeqE: "rm N (Seq p q) s c s' c'"
inductive_cases rm_OptE: "rm N (Opt p) s c s' c'"
inductive_cases rm_GroupE: "rm N (Group g p) s c s' c'"
inductive_cases rm_BolE: "rm N Bol s c s' c'"
inductive_cases rm_EolE: "rm N Eol s c s' c'"

lemma run_sound: "run N k s c = Some (s', c') \<Longrightarrow> km N k s c s' c'"
proof (induction N k s c arbitrary: s' c' rule: run.induct)
  case (1 N s c)
  then show ?case by simp
next
  case (2 N k s c)
  then have "km N k s c s' c'" by simp
  then show ?case using rm_Eps by fastforce
next
  case (3 N a k c)
  then show ?case by simp
next
  case (4 N a k x s c)
  then have "accepts a x" "km N k s c s' c'" by (auto split: if_splits)
  then show ?case using rm_Atom by fastforce
next
  case (5 N p q k s c)
  then have "km N (R p # R q # k) s c s' c'" by simp
  then show ?case by (auto intro: rm_Seq)
next
  case (6 N p k s c)
  show ?case
  proof (cases "run N (R p # StarChk (length s) p # k) s c")
    case None
    with 6 have "km N k s c s' c'" by simp
    then show ?thesis using rm_Star0 by fastforce
  next
    case (Some r)
    with 6 have "km N (R p # StarChk (length s) p # k) s c s' c'" by (cases r) simp
    then show ?thesis by (auto intro: rm_StarS)
  qed
next
  case (7 N n p k s c)
  then show ?case by (auto split: if_splits)
next
  case (8 N p k s c)
  show ?case
  proof (cases "run N k s c")
    case None
    with 8 have "km N (R p # LazyChk (length s) p # k) s c s' c'" by simp
    then show ?thesis by (auto intro: rm_LazyS)
  next
    case (Some r)
    with 8 have "km N k s c s' c'" by (cases r) simp
    then show ?thesis using rm_Lazy0 by fastforce
  qed
next
  case (9 N n p k s c)
  then show ?case by (auto split: if_splits)
next
  case (10 N p k s c)
  show ?case
  proof (cases "run N (R p # OptChk (length s) # k) s c")
    case None
    with 10 have "km N k s c s' c'" by simp
    then show ?thesis using rm_Opt0 by fastforce
  next
    case (Some r)
    with 10 have "km N (R p # OptChk (length s) # k) s c s' c'" by (cases r) simp
    then show ?thesis by (auto intro: rm_OptS)
  qed
next
  case (11 N n k s c)
  then show ?case by (auto split: if_splits)
next
  case (12 N g p k s c)
  then have "km N (R p # GroupEnd g (N - length s) # k) s c s' c'" by simp
  then show ?case by (auto intro: rm_Group)
next
  case (13 N g b k s c)
  then show ?case by simp
next
  case (14 N k s c)
  then have "length s = N" "km N k s c s' c'" by (auto split: if_splits)
  then show ?case using rm_Bol by fastforce
next
  case (15 N k s c)
  then have "s = []" "km N k s c s' c'" by (auto split: if_splits)
  then show ?case using rm_Eol by fastforce
qed

lemma run_sound1: "run N [R r] s c = Some (s', c') \<Longrightarrow> rm N r s c s' c'"
  using run_sound [of N "[R r]" s c s' c'] by simp

lemma rm_Eps_iff: "rm N Eps s c s' c' = (s' = s \<and> c' = c)"
  by (blast intro: rm_Eps elim: rm_EpsE)

lemma rm_Seq_iff:
  "rm N (Seq p q) s c s' c' = (\<exists>s1 c1. rm N p s c s1 c1 \<and> rm N q s1 c1 s' c')"
  by (blast intro: rm_Seq elim: rm_SeqE)

lemma rm_seqs_Cons:
  "rm N (seqs (r # rs)) s c s' c' = (\<exists>s1 c1. rm N r s c s1 c1 \<and> rm N (seqs rs) s1 c1 s' c')"
  by (cases rs) (auto simp: rm_Eps_iff rm_Seq_iff)

lemma rm_Atom_iff: "rm N (Atom a) s c s' c' = (\<exists>x. s = x # s' \<and> accepts a x \<and> c' = c)"
  by (blast intro: rm_Atom elim: rm_AtomE)

lemma rm_Group_iff:
  "rm N (Group g p) s c s' c' =
     (\<exists>c1. rm N p s c s' c1 \<and> c' = (g, N - length s, N - length s') # c1)"
  by (blast intro: rm_Group elim: rm_GroupE)

lemma rm_lit: "rm N (lit w) s c s' c' = (s = w @ s' \<and> c' = c)"
  unfolding lit_def
proof (induction w arbitrary: s)
  case Nil
  then show ?case by (auto simp: rm_Eps_iff)
next
  case (Cons a w)
  show ?case
    unfolding list.map rm_seqs_Cons by (auto simp: rm_Atom_iff Cons)
qed

lemma rm_Star_Atom:
  "rm N r s c s' c' \<Longrightarrow> r = Star (Atom a) \<Longrightarrow>
     c' = c \<and> (\<exists>w. s = w @ s' \<and> (\<forall>x \<in> set w. accepts a x))"
proof (induction rule: rm.induct)
  case (rm_Star0 p s c)
  then show ?case by simp
next
  case (rm_StarS p s c s1 c1 s2 c2)
  then have p: "p = Atom a" by simp
  with rm_StarS(1) obtain x where x: "s = x # s1" "accepts a x" "c1 = c"
    by (auto simp: rm_Atom_iff)
  from rm_StarS(4) [OF rm_StarS(5)] obtain w where
    w: "c2 = c1" "s1 = w @ s2" "\<forall>x \<in> set w. accepts a x" by blast
  have "s = (x # w) @ s2" "\<forall>y \<in> set (x # w). accepts a y"
    using x w by auto
  with x w show ?case by blast
qed simp_all

lemma rm_Plus_Atom:
  assumes "rm N (Plus (Atom a)) s c s' c'"
  shows "c' = c \<and> (\<exists>w. w \<noteq> [] \<and> s = w @ s' \<and> (\<forall>x \<in> set w. accepts a x))"
proof -
  from assms obtain x s1 where x: "s = x # s1" "accepts a x"
    and st: "rm N (Star (Atom a)) s1 c s' c'"
    by (auto simp: Plus_def rm_Seq_iff rm_Atom_iff)
  from rm_Star_Atom [OF st refl] obtain w where
    w: "c' = c" "s1 = w @ s'" "\<forall>y \<in> set w. accepts a y" by blast
  have "x # w \<noteq> []" "s = (x # w) @ s'" "\<forall>y \<in> set (x # w). accepts a y"
    using x w by auto
  with w(1) show ?thesis by blast
qed

lemma scan_matches:
  "(b, e, c) \<in> set (scan k N skip s) \<Longrightarrow>
     \<exists>s0 rest. suffix s0 s \<and> run N k s0 [] = Some (rest, c)
        \<and> b = N - length s0 \<and> e = N - length rest"
proof (induction k N skip s rule: scan.induct)
  case (1 k N skip)
  show ?case
  proof (cases "skip = 0")
    case False
    with 1 show ?thesis by simp
  next
    case True
    show ?thesis
    proof (cases "run N k [] []")
      case None
      with True 1 show ?thesis by simp
    next
      case (Some r)
      obtain rest c' where rc: "r = (rest, c')" by (cases r)
      with True Some 1 have "b = N" "e = N - length rest" "c = c'" by simp_all
      with Some rc have "suffix [] ([] :: string) \<and> run N k [] [] = Some (rest, c)
          \<and> b = N - length ([] :: string) \<and> e = N - length rest"
        by simp
      then show ?thesis by (intro exI)
    qed
  qed
next
  case (2 k N skip x s)
  have up: "\<exists>s0 rest. suffix s0 (x # s) \<and> run N k s0 [] = Some (rest, c)
        \<and> b = N - length s0 \<and> e = N - length rest"
    if "\<exists>s0 rest. suffix s0 s \<and> run N k s0 [] = Some (rest, c)
        \<and> b = N - length s0 \<and> e = N - length rest"
  proof -
    from that obtain s0 rest where h: "suffix s0 s" "run N k s0 [] = Some (rest, c)"
      "b = N - length s0" "e = N - length rest" by (elim exE conjE)
    from h(1) have "suffix s0 (x # s)" by (rule suffix_ConsI)
    with h have "suffix s0 (x # s) \<and> run N k s0 [] = Some (rest, c)
        \<and> b = N - length s0 \<and> e = N - length rest" by simp
    then show ?thesis by (intro exI)
  qed
  show ?case
  proof (cases "0 < skip")
    case True
    with "2.prems" have "(b, e, c) \<in> set (scan k N (skip - 1) s)" by simp
    from "2.IH"(1) [OF True this] show ?thesis by (rule up)
  next
    case False
    show ?thesis
    proof (cases "run N k (x # s) []")
      case None
      with False "2.prems" have "(b, e, c) \<in> set (scan k N 0 s)" by simp
      from "2.IH"(2) [OF False None this] show ?thesis by (rule up)
    next
      case (Some r)
      obtain rest' c' where r: "r = (rest', c')" by (cases r)
      from "2.prems" False Some r have
        "(b, e, c) = (N - length (x # s), N - length rest', c')
         \<or> (b, e, c) \<in> set (scan k N (length (x # s) - length rest' - 1) s)"
        by simp
      then show ?thesis
      proof
        assume "(b, e, c) = (N - length (x # s), N - length rest', c')"
        with Some r have "suffix (x # s) (x # s) \<and> run N k (x # s) [] = Some (rest', c)
          \<and> b = N - length (x # s) \<and> e = N - length rest'"
          by simp
        then show ?thesis by (intro exI)
      next
        assume "(b, e, c) \<in> set (scan k N (length (x # s) - length rest' - 1) s)"
        from "2.IH"(3) [OF False Some r [symmetric] this] show ?thesis by (rule up)
      qed
    qed
  qed
qed

lemma matchAll_matches:
  assumes "(b, e, c) \<in> set (matchAll re inp)"
  shows "\<exists>pre s0 rest. inp = pre @ s0 \<and> rm (length inp) re s0 [] rest c
           \<and> b = length pre \<and> e = length inp - length rest"
proof -
  from scan_matches [OF assms [unfolded matchAll_def]] obtain s0 rest where
    h: "suffix s0 inp" "run (length inp) [R re] s0 [] = Some (rest, c)"
      "b = length inp - length s0" "e = length inp - length rest" by blast
  from h(1) obtain pre where "inp = pre @ s0" by (auto simp: suffix_def)
  with h run_sound1 [OF h(2)] show ?thesis by auto
qed

lemma fieldPattern_match:
  assumes "rm N fieldPattern s0 [] rest c"
  shows "\<exists>ws v f. s0 = ''{{'' @ ws @ ''$'' @ v @ ''.'' @ f @ rest
           \<and> (\<forall>x \<in> set ws. is_space x)
           \<and> v \<noteq> [] \<and> (\<forall>x \<in> set v. is_word x)
           \<and> f \<noteq> [] \<and> (\<forall>x \<in> set f. is_word x)
           \<and> c = [(2, N - length (f @ rest), N - length rest),
                   (1, N - length (v @ ''.'' @ f @ rest), N - length (''.'' @ f @ rest))]"
proof -
  from assms obtain s1 c1 s2 c2 s3 c3 s4 c4 s5 c5 where
    a: "rm N (lit ''{{'') s0 [] s1 c1"
    and b: "rm N spaces s1 c1 s2 c2"
    and d: "rm N (Atom (Ch CHR ''$'')) s2 c2 s3 c3"
    and e: "rm N (Group 1 word1) s3 c3 s4 c4"
    and f: "rm N (Atom (Ch CHR ''.'')) s4 c4 s5 c5"
    and g: "rm N (Group 2 word1) s5 c5 rest c"
    unfolding fieldPattern_def rm_seqs_Cons seqs.simps(1) rm_Eps_iff by blast
  from a have 1: "s0 = ''{{'' @ s1" "c1 = []" by (auto simp: rm_lit)
  from rm_Star_Atom [OF b refl] obtain ws where
    2: "c2 = c1" "s1 = ws @ s2" "\<forall>x \<in> set ws. is_space x" by auto
  from d have 3: "s2 = CHR ''$'' # s3" "c3 = c2" by (auto simp: rm_Atom_iff)
  from e obtain c3' where e': "rm N word1 s3 c3 s4 c3'"
    "c4 = (1, N - length s3, N - length s4) # c3'" by (auto simp: rm_Group_iff)
  from rm_Plus_Atom [OF e'(1)] obtain v where
    4: "c3' = c3" "v \<noteq> []" "s3 = v @ s4" "\<forall>x \<in> set v. is_word x" by auto
  from f have 5: "s4 = CHR ''.'' # s5" "c5 = c4" by (auto simp: rm_Atom_iff)
  from g obtain c5' where g': "rm N word1 s5 c5 rest c5'"
    "c = (2, N - length s5, N - length rest) # c5'" by (auto simp: rm_Group_iff)
  from rm_Plus_Atom [OF g'(1)] obtain fl where
    6: "c5' = c5" "fl \<noteq> []" "s5 = fl @ rest" "\<forall>x \<in> set fl. is_word x" by auto
  have "s0 = ''{{'' @ ws @ ''$'' @ v @ ''.'' @ fl @ rest"
    using 1 2 3 4 5 6 by simp
  moreover have "c = [(2, N - length (fl @ rest), N - length rest),
                   (1, N - length (v @ ''.'' @ fl @ rest), N - length (''.'' @ fl @ rest))]"
    using 1 2 3 4 5 6 e' g' by simp
  ultimately show ?thesis using 2(3) 4(2,4) 6(2,4) by blast
qed

lemma indexOf_from_skip:
  assumes "r \<noteq> []" "\<forall>x \<in> set p. x \<noteq> hd r"
  shows "indexOf_from n (p @ r) r = int (n + length p)"
  using assms(2)
proof (induction p arbitrary: n)
  case Nil
  from assms(1) obtain h t where "r = h # t" by (cases r) auto
  then show ?case by simp
next
  case (Cons x p)
  from assms(1) obtain h t where r: "r = h # t" by (cases r) auto
  with Cons.prems have "x \<noteq> h" by simp
  then have "\<not> prefix r (x # p @ r)" using r by simp
  with Cons show ?case by simp
qed

lemma take_drop_mid:
  "take ((length (a @ b @ c) - length c) - (length (a @ b @ c) - length (b @ c)))
     (drop (length (a @ b @ c) - length (b @ c)) (a @ b @ c)) = b"
  by simp

lemma not_space_not_word:
  "\<not> is_space CHR ''{''" "\<not> is_space CHR ''$''" "\<not> is_word CHR ''$''"
  by (simp_all add: is_space_def is_word_def)

lemma fieldPattern_occurrence:
  assumes "mt \<in> set (matchAll fieldPattern txt)"
  shows "\<exists>pre ws post. txt = pre @ ''{{'' @ ws @ post \<and> (\<forall>x \<in> set ws. is_space x)
           \<and> matchStartOf txt mt = length (pre @ ''{{'' @ ws)"
proof -
  obtain b e c where mt: "mt = (b, e, c)" by (cases mt)
  from matchAll_matches [OF assms [unfolded mt]] obtain pre s0 rest where
    h: "txt = pre @ s0" "rm (length txt) fieldPattern s0 [] rest c" "b = length pre"
      "e = length txt - length rest" by blast
  from fieldPattern_match [OF h(2)] obtain ws v f where
    m: "s0 = ''{{'' @ ws @ ''$'' @ v @ ''.'' @ f @ rest" "\<forall>x \<in> set ws. is_space x"
      "v \<noteq> []" "f \<noteq> []"
      "c = [(2, length txt - length (f @ rest), length txt - length rest),
            (1, length txt - length (v @ ''.'' @ f @ rest), length txt - length (''.'' @ f @ rest))]"
    by blast
  let ?ref = "''$'' @ v @ ''.'' @ f"
  have tx: "txt = pre @ ''{{'' @ ws @ ?ref @ rest"
    using h(1) m(1) by simp
  have matched: "matched txt mt = (''{{'' @ ws) @ ?ref"
  proof -
    define M where "M = (''{{'' @ ws) @ ?ref"
    have t: "txt = pre @ M @ rest" using tx by (simp add: M_def)
    have "b = length (pre @ M @ rest) - length (M @ rest)" using h(3) by simp
    then have "matched txt mt = M"
      unfolding matched_def mt h(4) t prod.case by (simp only: take_drop_mid)
    then show ?thesis by (simp only: M_def)
  qed
  have g1: "group txt mt 1 = v"
  proof -
    define A where "A = pre @ ''{{'' @ ws @ ''$''"
    define B where "B = ''.'' @ f @ rest"
    have t: "txt = A @ v @ B" using tx by (simp add: A_def B_def)
    have c1: "map_of c 1 = Some (length (A @ v @ B) - length (v @ B), length (A @ v @ B) - length B)"
      unfolding m(5) t B_def by simp
    show ?thesis
      unfolding group_def mt prod.case c1 option.case
      unfolding t by (simp only: take_drop_mid)
  qed
  have g2: "group txt mt 2 = f"
  proof -
    define A where "A = pre @ ''{{'' @ ws @ ''$'' @ v @ ''.''"
    have t: "txt = A @ f @ rest" using tx by (simp add: A_def)
    have c2: "map_of c 2 = Some (length (A @ f @ rest) - length (f @ rest), length (A @ f @ rest) - length rest)"
      unfolding m(5) t by simp
    show ?thesis
      unfolding group_def mt prod.case c2 option.case
      unfolding t by (simp only: take_drop_mid)
  qed
  have "\<forall>x \<in> set (''{{'' @ ws). x \<noteq> hd ?ref"
    using m(2) not_space_not_word by auto
  then have "indexOf (matched txt mt) ?ref = int (length (''{{'' @ ws))"
    unfolding matched indexOf_def using indexOf_from_skip [of ?ref "''{{'' @ ws" 0] by simp
  then have "matchStartOf txt mt = length (pre @ ''{{'' @ ws)"
    unfolding matchStartOf_def g1 g2 by (simp add: mt h(3))
  moreover have "txt = pre @ ''{{'' @ ws @ (?ref @ rest)"
    using tx by simp
  ultimately show ?thesis using m(2) by blast
qed

section \<open>Properties of context analysis, diagnostics and completion\<close>

lemma collect_nil: "(\<And>x. x \<in> set xs \<Longrightarrow> f x = Inr []) \<Longrightarrow> collect f xs = Inr []"
  by (induction xs) auto

lemma lastIndexOf_Nil: "lastIndexOf [] ''{{'' = -1"
  by (simp add: lastIndexOf_def)

lemma analyzeContext_column_0:
  assumes "i < length (linesOf document)"
  shows "analyzeContext document (Pos i 0) = Inr unknownContext"
  using assms by (simp add: analyzeContext_def Pos_def lineAt_def lastIndexOf_Nil Let_def)

lemma enumDiagnostic_nil:
  assumes "i < length (linesOf document)"
  shows "enumDiagnostic st document ln i mt = Inr []"
  by (simp add: enumDiagnostic_def Let_def analyzeContext_column_0 [OF assms] unknownContext_def)

lemma validateEnumValues_nil: "validateEnumValues st document = Inr []"
proof -
  have "collect (enumDiagnostic st document ln i) ms = Inr []"
    if "i < length (linesOf document)" for ln i ms
    by (rule collect_nil) (simp add: enumDiagnostic_nil [OF that])
  then show ?thesis
    unfolding validateEnumValues_def Let_def linesOf_def
    by (intro collect_nil) (auto simp: linesOf_def dest!: set_zip_rightD)
qed

lemma fieldDiagnostic_unknown:
  assumes "analyzeContext document (positionAt document (matchStartOf (getText document) mt)) = Inr ctx"
    and "ctxType ctx = unknown"
  shows "fieldDiagnostic st document mt = Inr []"
  using assms by (simp add: fieldDiagnostic_def Let_def)

lemma analyzeContext_lineAt:
  assumes "analyzeContext document position = Inr ctx"
  obtains ln where "lineAt document (line position) = Inr ln"
  using assms by (auto simp: analyzeContext_def split: sum.splits)

lemma provideCompletionItems_unknown:
  assumes "analyzeContext document position = Inr ctx" and "ctxType ctx = unknown"
  shows "provideCompletionItems st document position = Inr Undefined"
proof -
  from assms(1) obtain ln where ln: "lineAt document (line position) = Inr ln"
    by (rule analyzeContext_lineAt)
  have f: "fieldCompletionAt st document position tb = Inr None" for tb
    using assms by (simp add: fieldCompletionAt_def split: option.splits)
  have d: "detectEnumContext document position = Inr None"
    using assms ln by (simp add: detectEnumContext_def Let_def split: option.splits)
  show ?thesis
    by (simp add: provideCompletionItems_def ln f d)
qed

lemma sortText_tiers: "(''!0_'' @ a :: string) < ''!1_'' @ b"
  by (simp add: less_char_def)

lemma str_includes_iff: "str_includes s sub = (\<exists>pre post. s = pre @ sub @ post)"
proof (induction s)
  case Nil
  then show ?case by auto
next
  case (Cons c s)
  show ?case
  proof
    assume "str_includes (c # s) sub"
    then consider "prefix sub (c # s)" | "str_includes s sub" by auto
    then show "\<exists>pre post. c # s = pre @ sub @ post"
    proof cases
      case 1
      then obtain post where "c # s = sub @ post" by (auto simp: prefix_def)
      then have "c # s = [] @ sub @ post" by simp
      then show ?thesis by blast
    next
      case 2
      with Cons.IH obtain pre post where "s = pre @ sub @ post" by auto
      then have "c # s = (c # pre) @ sub @ post" by simp
      then show ?thesis by blast
    qed
  next
    assume "\<exists>pre post. c # s = pre @ sub @ post"
    then obtain pre post where eq: "c # s = pre @ sub @ post" by auto
    show "str_includes (c # s) sub"
    proof (cases pre)
      case Nil
      with eq have "prefix sub (c # s)" by (simp add: prefix_def)
      then show ?thesis by simp
    next
      case (Cons a pre')
      with eq have "s = pre' @ sub @ post" by simp
      with Cons.IH have "str_includes s sub" by blast
      then show ?thesis by simp
    qed
  qed
qed

lemma getFieldCompletions_labels:
  "map label (getFieldCompletions st ctx partialField) =
     map name (filter (\<lambda>field. str_includes (toLowerCase (name field)) (toLowerCase partialField))
                 (getFields st ctx))"
  by (simp add: getFieldCompletions_def createFieldCompletionItem_def comp_def)

section \<open>The context at the start of a field reference\<close>

lemma takeWhile_all: "\<forall>x \<in> set xs. P x \<Longrightarrow> takeWhile P xs = xs"
  by (induction xs) auto

lemma dropWhile_all: "\<forall>x \<in> set xs. P x \<Longrightarrow> dropWhile P xs = []"
  by (induction xs) auto

lemma split_acc_hd: "split_acc c acc s ! 0 = rev acc @ takeWhile (\<lambda>x. x \<noteq> c) s"
  by (induction s arbitrary: acc) auto

lemma split_acc_length: "length (split_acc c acc s) = Suc (length (filter (\<lambda>x. x = c) s))"
  by (induction s arbitrary: acc) auto

lemma split_acc_nth:
  assumes "c \<notin> set acc"
  shows "split_acc c acc (p @ q) ! length (filter (\<lambda>x. x = c) p)
           = rev (takeWhile (\<lambda>x. x \<noteq> c) (rev p @ acc)) @ takeWhile (\<lambda>x. x \<noteq> c) q"
  using assms
proof (induction p arbitrary: acc)
  case Nil
  then have "takeWhile (\<lambda>x. x \<noteq> c) acc = acc"
    by (intro takeWhile_all) auto
  then show ?case by (simp only: split_acc_hd append_Nil rev.simps list.size filter.simps nth_Cons_0)
next
  case (Cons x p)
  show ?case
  proof (cases "x = c")
    case True
    have "takeWhile (\<lambda>x. x \<noteq> c) (rev p @ [c] @ acc) = takeWhile (\<lambda>x. x \<noteq> c) (rev p)"
      by (simp add: takeWhile_tail)
    with True Cons.IH [of "[]"] show ?thesis by simp
  next
    case False
    with Cons.prems have "c \<notin> set (x # acc)" by simp
    from Cons.IH [OF this] False show ?thesis by simp
  qed
qed

lemma position_text:
  assumes "getText document = p @ q"
  shows "\<exists>ln. lineAt document (line (positionAt document (length p))) = Inr ln
           \<and> take (character (positionAt document (length p))) ln
               = rev (takeWhile (\<lambda>x. x \<noteq> CHR 0x0A) (rev p))"
proof -
  let ?l = "length (filter (\<lambda>x. x = CHR 0x0A) p)"
  let ?t = "rev (takeWhile (\<lambda>x. x \<noteq> CHR 0x0A) (rev p))"
  have pos: "positionAt document (length p) = Pos ?l (length ?t)"
    by (simp add: positionAt_def assms Let_def)
  have len: "?l < length (linesOf document)"
    by (simp add: linesOf_def split_def split_acc_length assms)
  have "linesOf document ! ?l = ?t @ takeWhile (\<lambda>x. x \<noteq> CHR 0x0A) q"
    using split_acc_nth [of "CHR 0x0A" "[]" p q] by (simp add: linesOf_def split_def assms)
  with len pos show ?thesis
    by (simp add: lineAt_def Pos_def)
qed

lemma lastIndexOf_from_none:
  "CHR ''{'' \<notin> set s \<Longrightarrow> lastIndexOf_from i found s ''{{'' = found"
  by (induction s arbitrary: i found) auto

lemma lastIndexOf_from_open:
  assumes "CHR ''{'' \<notin> set w"
  shows "lastIndexOf_from i found (t @ ''{{'' @ w) ''{{'' = int (i + length t)"
proof (induction t arbitrary: i found)
  case Nil
  have "\<not> prefix ''{{'' (CHR ''{'' # w)"
    using assms by (cases w) auto
  then show ?case
    using assms by (simp add: lastIndexOf_from_none)
next
  case (Cons x t)
  then show ?case by simp
qed

lemma trim_spaces:
  assumes "\<forall>x \<in> set w. is_space x"
  shows "trim w = []"
proof -
  from assms have "dropWhile is_space w = []"
    by (rule dropWhile_all)
  then show ?thesis by (simp only: trim_def rev.simps dropWhile.simps)
qed

lemma exec_varPattern_Nil: "exec varPattern [] = None"
  by code_simp

lemma analyzeContext_before_reference:
  assumes ln: "lineAt document (line position) = Inr ln"
    and tb: "take (character position) ln = u"
    and shape: "CHR ''{'' \<notin> set u \<or> (\<exists>t w. u = t @ ''{{'' @ w \<and> (\<forall>x \<in> set w. is_space x))"
  shows "analyzeContext document position = Inr unknownContext"
proof -
  from shape consider (none) "CHR ''{'' \<notin> set u"
    | (op) t w where "u = t @ ''{{'' @ w" "\<forall>x \<in> set w. is_space x" by blast
  then show ?thesis
  proof cases
    case none
    then have "lastIndexOf u ''{{'' = -1"
      by (simp add: lastIndexOf_def lastIndexOf_from_none)
    then show ?thesis
      by (simp add: analyzeContext_def ln tb Let_def)
  next
    case op
    then have nb: "CHR ''{'' \<notin> set w"
      using not_space_not_word(1) by auto
    have lo: "lastIndexOf u ''{{'' = int (length t)"
      unfolding op(1) lastIndexOf_def using lastIndexOf_from_open [OF nb, of 0 "-1" t] by simp
    have "drop (nat (int (length t) + 2)) u = w"
      by (simp add: op(1) nat_add_distrib)
    then have "trim (drop (nat (lastIndexOf u ''{{'' + 2)) u) = []"
      using op(2) by (simp add: lo trim_spaces)
    then show ?thesis
      by (simp add: analyzeContext_def ln tb Let_def exec_varPattern_Nil)
  qed
qed

lemma analyzeContext_at_occurrence:
  assumes "mt \<in> set (matchAll fieldPattern (getText document))"
  shows "analyzeContext document (positionAt document (matchStartOf (getText document) mt))
           = Inr unknownContext"
proof -
  from fieldPattern_occurrence [OF assms] obtain pre ws post where
    h: "getText document = pre @ ''{{'' @ ws @ post" "\<forall>x \<in> set ws. is_space x"
      "matchStartOf (getText document) mt = length (pre @ ''{{'' @ ws)" by blast
  let ?p = "pre @ ''{{'' @ ws"
  have "getText document = ?p @ post" using h(1) by simp
  from position_text [OF this] obtain ln where
    ln: "lineAt document (line (positionAt document (length ?p))) = Inr ln"
      "take (character (positionAt document (length ?p))) ln
         = rev (takeWhile (\<lambda>x. x \<noteq> CHR 0x0A) (rev ?p))" by blast
  let ?tl = "rev (takeWhile (\<lambda>x. x \<noteq> CHR 0x0A) (rev ?p))"
  have shape: "CHR ''{'' \<notin> set ?tl \<or> (\<exists>t w. ?tl = t @ ''{{'' @ w \<and> (\<forall>x \<in> set w. is_space x))"
  proof (cases "CHR 0x0A \<in> set ws")
    case True
    then have "takeWhile (\<lambda>x. x \<noteq> CHR 0x0A) (rev ?p) = takeWhile (\<lambda>x. x \<noteq> CHR 0x0A) (rev ws)"
      by (simp add: takeWhile_append1 [of "CHR 0x0A"])
    then have "set ?tl \<subseteq> set ws"
      using set_takeWhileD by fastforce
    then have "CHR ''{'' \<notin> set ?tl"
      using h(2) not_space_not_word(1) by auto
    then show ?thesis by simp
  next
    case False
    then have "takeWhile (\<lambda>x. x \<noteq> CHR 0x0A) ((rev ws @ ''{{'') @ rev pre)
                 = (rev ws @ ''{{'') @ takeWhile (\<lambda>x. x \<noteq> CHR 0x0A) (rev pre)"
      by (intro takeWhile_append2) auto
    then have "takeWhile (\<lambda>x. x \<noteq> CHR 0x0A) (rev ?p)
                 = rev ws @ ''{{'' @ takeWhile (\<lambda>x. x \<noteq> CHR 0x0A) (rev pre)"
      by simp
    then have "?tl = rev (takeWhile (\<lambda>x. x \<noteq> CHR 0x0A) (rev pre)) @ ''{{'' @ ws"
      by simp
    with h(2) show ?thesis by blast
  qed
  from analyzeContext_before_reference [OF ln(1) ln(2) shape] show ?thesis
    by (simp only: h(3))
qed

lemma unknownFieldPass_nil: "unknownFieldPass st document = Inr []"
  unfolding unknownFieldPass_def
proof (rule collect_nil)
  fix mt assume "mt \<in> set (matchAll fieldPattern (getText document))"
  from analyzeContext_at_occurrence [OF this] show "fieldDiagnostic st document mt = Inr []"
    by (simp add: fieldDiagnostic_def Let_def unknownContext_def)
qed

subsection \<open>Claims about the enum pass and the unknown context\<close>

lemma sample_method_enum:
  "getEnumValues sampleStore endpoint ''method'' = Some [''GET'', ''POST'', ''PUT'']"
  by code_simp

lemma enumDoc_lastRange: "lastRange enumDoc (Pos 1 0) = Some (''e'', ''.endpoints '')"
  by code_simp

lemma enumDoc_unknownFieldPass: "unknownFieldPass sampleStore enumDoc = Inr []"
  by code_simp

lemma enumDoc_commas: "validateTemplateJsonCommas enumDoc = []"
  by code_simp

text \<open>
  Claim C1 (the code misses it). The document \<open>enumDoc\<close> has the line
  \<^verbatim>\<open>"method": "GETT"\<close> inside a loop over the endpoints, and \<^verbatim>\<open>method\<close> has the enum
  GET, POST, PUT in the endpoint shape. The enum pass resolves the context at column 0
  of the line, where the text before the cursor is empty: the context is \<open>unknown\<close>, and
  no diagnostic is produced.
\<close>

theorem enum_pass_reports_nothing:
  "getEnumValues sampleStore endpoint ''method'' = Some [''GET'', ''POST'', ''PUT'']
   \<and> ''GETT'' \<notin> set [''GET'', ''POST'', ''PUT'']
   \<and> lastRange enumDoc (Pos 1 0) = Some (''e'', ''.endpoints '')
   \<and> classifyRange ''e'' ''.endpoints '' = endpoint
   \<and> analyzeContext enumDoc (Pos 1 0) = Inr unknownContext
   \<and> validateEnumValues sampleStore enumDoc = Inr []
   \<and> updateDiagnostics sampleStore enumDoc = Inr (Some [])"
proof -
  have c: "classifyRange ''e'' ''.endpoints '' = endpoint"
    by (simp add: classifyRange_def)
  have l: "length (linesOf enumDoc) = 3"
    by code_simp
  then have a: "analyzeContext enumDoc (Pos 1 0) = Inr unknownContext"
    by (simp add: analyzeContext_column_0)
  have g: "languageId enumDoc = ''gotmpl''"
    by (simp add: enumDoc_def template_def)
  have u: "updateDiagnostics sampleStore enumDoc = Inr (Some [])"
    by (simp add: updateDiagnostics_def g enumDoc_unknownFieldPass validateEnumValues_nil
        enumDoc_commas)
  from sample_method_enum enumDoc_lastRange c a u validateEnumValues_nil [of sampleStore enumDoc]
  show ?thesis by simp
qed

text \<open>
  Claim C2. When the context resolved at an occurrence \<^verbatim>\<open>$identifier.identifier\<close> is
  \<open>unknown\<close>, the unknown-field pass produces no diagnostic for that occurrence; and when
  the context resolved at a cursor position is \<open>unknown\<close>, the completion provider
  returns \<^verbatim>\<open>undefined\<close>: neither field nor enum candidates, and no error.
\<close>

theorem unknown_context_suppresses:
  "(analyzeContext document (positionAt document (matchStartOf (getText document) mt)) = Inr ctx
      \<and> ctxType ctx = unknown
      \<longrightarrow> fieldDiagnostic st document mt = Inr [])
   \<and> (analyzeContext document position = Inr ctx' \<and> ctxType ctx' = unknown
      \<longrightarrow> provideCompletionItems st document position = Inr Undefined)"
  using fieldDiagnostic_unknown provideCompletionItems_unknown by blast

lemma plainDoc_matches:
  "matchAll fieldPattern (getText plainDoc) = [(0, 9, [(2, 6, 9), (1, 4, 5)])]"
  by code_simp

lemma plainDoc_start: "matchStartOf (getText plainDoc) (0, 9, [(2, 6, 9), (1, 4, 5)]) = 3"
  by code_simp

lemma plainDoc_position: "positionAt plainDoc 3 = Pos 0 3"
  by code_simp

lemma plainDoc_context_3:
  "analyzeContext plainDoc (Pos 0 3) = Inr unknownContext"
  by code_simp

lemma plainDoc_context_6:
  "analyzeContext plainDoc (Pos 0 6) =
     Inr \<lparr>ctxType = unknown, variableName = Some ''x'', fieldPath = Some []\<rparr>"
  by code_simp

text \<open>
  Witness for C2: in \<^verbatim>\<open>{{ $x.foo }}\<close> the occurrence begins at offset 3, and the cursor
  after \<^verbatim>\<open>$x.\<close> is at column 6; \<^verbatim>\<open>foo\<close> is not a field of any shape of the sample store.
\<close>

theorem unknown_context_suppresses_witness:
  "matchAll fieldPattern (getText plainDoc) = [(0, 9, [(2, 6, 9), (1, 4, 5)])]
   \<and> analyzeContext plainDoc
        (positionAt plainDoc (matchStartOf (getText plainDoc) (0, 9, [(2, 6, 9), (1, 4, 5)])))
       = Inr unknownContext
   \<and> ctxType unknownContext = unknown
   \<and> fieldDiagnostic sampleStore plainDoc (0, 9, [(2, 6, 9), (1, 4, 5)]) = Inr []
   \<and> analyzeContext plainDoc (Pos 0 6)
       = Inr \<lparr>ctxType = unknown, variableName = Some ''x'', fieldPath = Some []\<rparr>
   \<and> provideCompletionItems sampleStore plainDoc (Pos 0 6) = Inr Undefined"
proof -
  have a: "analyzeContext plainDoc
        (positionAt plainDoc (matchStartOf (getText plainDoc) (0, 9, [(2, 6, 9), (1, 4, 5)])))
       = Inr unknownContext"
    by (simp only: plainDoc_start plainDoc_position plainDoc_context_3)
  have u: "ctxType unknownContext = unknown"
    by (simp add: unknownContext_def)
  have v: "ctxType \<lparr>ctxType = unknown, variableName = Some ''x'', fieldPath = Some []\<rparr> = unknown"
    by simp
  note th = unknown_context_suppresses
    [of plainDoc "(0, 9, [(2, 6, 9), (1, 4, 5)])" unknownContext sampleStore "Pos 0 6"
        "\<lparr>ctxType = unknown, variableName = Some ''x'', fieldPath = Some []\<rparr>"]
  from th a u v plainDoc_context_6 plainDoc_matches show ?thesis
    by blast
qed

subsection \<open>Claims about context resolution\<close>

lemma analyzeContext_binding_wins:
  assumes "analyzeContext document position = Inr ctx" and "variableName ctx = Some v"
    and "lastRange document position = Some (rv, expr)"
    and "classifyRange rv expr \<noteq> unknown"
  shows "ctxType ctx = classifyRange rv expr"
proof -
  have i: "inferContextFromSurrounding document position = classifyRange rv expr"
    using assms(3) by (simp add: inferContextFromSurrounding_def)
  show ?thesis
    using assms(1,2,4)
    by (auto simp: analyzeContext_def Let_def i unknownContext_def
        split: sum.splits if_splits option.splits)
qed

lemma classifyRange_endpoints:
  "str_includes expr ''endpoints'' \<Longrightarrow> classifyRange rv expr = endpoint"
  by (simp add: classifyRange_def)

lemma classifyRange_backends:
  "\<not> str_includes expr ''endpoints'' \<Longrightarrow>
   str_includes expr ''backends'' \<or> str_includes expr ''frontend_backends'' \<Longrightarrow>
   classifyRange rv expr = backend"
proof -
  assume a: "\<not> str_includes expr ''endpoints''"
    and b: "str_includes expr ''backends'' \<or> str_includes expr ''frontend_backends''"
  have "\<not> str_includes expr ''.endpoints''"
  proof
    assume "str_includes expr ''.endpoints''"
    then obtain pre post where "expr = pre @ ''.endpoints'' @ post"
      by (auto simp: str_includes_iff)
    then have "expr = (pre @ ''.'') @ ''endpoints'' @ post" by simp
    then have "str_includes expr ''endpoints''"
      unfolding str_includes_iff by blast
    with a show False by simp
  qed
  with a b show ?thesis by (auto simp: classifyRange_def)
qed

lemma endpointsDoc_columns:
  "map (\<lambda>c. map_sum id ctxType (analyzeContext endpointsDoc (Pos 0 c))) [34..<44]
     = replicate 10 (Inr endpoint)"
  by code_simp

lemma backendsDoc_columns:
  "map (\<lambda>c. map_sum id ctxType (analyzeContext backendsDoc (Pos 0 c))) [33..<45]
     = replicate 12 (Inr backend)"
  by code_simp

text \<open>
  Wherever the analyzer finds a variable reference before the cursor, the last \<^verbatim>\<open>range\<close>
  statement in the text from fifty lines above to the cursor decides the context,
  whatever the name of the variable: \<open>endpoint\<close> when its expression contains
  \<^verbatim>\<open>endpoints\<close>, otherwise \<open>backend\<close> when it contains \<^verbatim>\<open>backends\<close>.
\<close>

lemma binding_decides_context:
  assumes "analyzeContext document position = Inr ctx" and "variableName ctx = Some v"
    and "lastRange document position = Some (rv, expr)"
  shows "str_includes expr ''endpoints'' \<Longrightarrow> ctxType ctx = endpoint"
    and "\<not> str_includes expr ''endpoints'' \<Longrightarrow>
         str_includes expr ''backends'' \<or> str_includes expr ''frontend_backends'' \<Longrightarrow>
         ctxType ctx = backend"
proof -
  assume "str_includes expr ''endpoints''"
  then have "classifyRange rv expr = endpoint" by (rule classifyRange_endpoints)
  with analyzeContext_binding_wins [OF assms] show "ctxType ctx = endpoint" by simp
next
  assume "\<not> str_includes expr ''endpoints''"
    and "str_includes expr ''backends'' \<or> str_includes expr ''frontend_backends''"
  then have "classifyRange rv expr = backend" by (rule classifyRange_backends)
  with analyzeContext_binding_wins [OF assms] show "ctxType ctx = backend" by simp
qed

text \<open>
  In \<open>disagreeDoc\<close> the loop variable is called \<^verbatim>\<open>backend\<close> and the loop runs over
  \<^verbatim>\<open>.endpoints\<close>: with the cursor at the end of the reference the context is \<open>endpoint\<close>.
\<close>

lemma disagreeDoc_context:
  "analyzeContext disagreeDoc (Pos 0 47) =
     Inr \<lparr>ctxType = endpoint, variableName = Some ''backend'', fieldPath = Some []\<rparr>"
  by code_simp

lemma disagreeDoc_lastRange:
  "lastRange disagreeDoc (Pos 0 47) = Some (''backend'', ''.endpoints '')"
  by code_simp

lemma disagreeDoc_nameHint: "nameHint ''backend'' = backend"
  by code_simp

lemma endpointsDoc_matches:
  "matchAll fieldPattern (getText endpointsDoc) = [(29, 41, [(2, 35, 41), (1, 33, 34)])]"
  by code_simp

lemma endpointsDoc_position:
  "positionAt endpointsDoc
     (matchStartOf (getText endpointsDoc) (29, 41, [(2, 35, 41), (1, 33, 34)])) = Pos 0 32"
  by code_simp

lemma endpointsDoc_lastRange: "lastRange endpointsDoc (Pos 0 32) = Some (''e'', ''.endpoints '')"
  by code_simp

lemma backendsDoc_matches:
  "matchAll fieldPattern (getText backendsDoc) = [(28, 42, [(2, 34, 42), (1, 32, 33)])]"
  by code_simp

lemma backendsDoc_position:
  "positionAt backendsDoc
     (matchStartOf (getText backendsDoc) (28, 42, [(2, 34, 42), (1, 32, 33)])) = Pos 0 31"
  by code_simp

lemma backendsDoc_lastRange: "lastRange backendsDoc (Pos 0 31) = Some (''b'', ''.backends '')"
  by code_simp

text \<open>
  Claim C4 (the code misses it). The validator resolves the context of an occurrence
  \<^verbatim>\<open>$variable.field\<close> at the offset where the occurrence begins. In \<open>endpointsDoc\<close> the
  occurrence \<^verbatim>\<open>$e.method\<close> begins at column 32, after a loop over \<^verbatim>\<open>.endpoints\<close>; in
  \<open>backendsDoc\<close> the occurrence \<^verbatim>\<open>$b.encoding\<close> begins at column 31, after a loop over
  \<^verbatim>\<open>.backends\<close>. At these positions the text before the cursor ends with the opening
  delimiter, the analyzer finds no variable reference in it and answers \<open>unknown\<close>,
  neither \<open>endpoint\<close> nor \<open>backend\<close>. With the cursor inside the same occurrences, at the
  columns 34 to 43 and 33 to 44, the answers are \<open>endpoint\<close> and \<open>backend\<close>. By lemma
  \<open>analyzeContext_at_occurrence\<close> the answer at the start of an occurrence is \<open>unknown\<close> in
  every document.
\<close>

theorem occurrence_context_is_unknown:
  "matchAll fieldPattern (getText endpointsDoc) = [(29, 41, [(2, 35, 41), (1, 33, 34)])]
   \<and> positionAt endpointsDoc
        (matchStartOf (getText endpointsDoc) (29, 41, [(2, 35, 41), (1, 33, 34)])) = Pos 0 32
   \<and> lastRange endpointsDoc (Pos 0 32) = Some (''e'', ''.endpoints '')
   \<and> classifyRange ''e'' ''.endpoints '' = endpoint
   \<and> analyzeContext endpointsDoc (Pos 0 32) = Inr unknownContext
   \<and> matchAll fieldPattern (getText backendsDoc) = [(28, 42, [(2, 34, 42), (1, 32, 33)])]
   \<and> positionAt backendsDoc
        (matchStartOf (getText backendsDoc) (28, 42, [(2, 34, 42), (1, 32, 33)])) = Pos 0 31
   \<and> lastRange backendsDoc (Pos 0 31) = Some (''b'', ''.backends '')
   \<and> classifyRange ''b'' ''.backends '' = backend
   \<and> analyzeContext backendsDoc (Pos 0 31) = Inr unknownContext
   \<and> ctxType unknownContext = unknown
   \<and> map (\<lambda>c. map_sum id ctxType (analyzeContext endpointsDoc (Pos 0 c))) [34..<44]
       = replicate 10 (Inr endpoint)
   \<and> map (\<lambda>c. map_sum id ctxType (analyzeContext backendsDoc (Pos 0 c))) [33..<45]
       = replicate 12 (Inr backend)"
proof -
  have "(29, 41, [(2, 35, 41), (1, 33, 34)]) \<in> set (matchAll fieldPattern (getText endpointsDoc))"
    by (simp only: endpointsDoc_matches list.set_intros)
  from analyzeContext_at_occurrence [OF this]
  have e: "analyzeContext endpointsDoc (Pos 0 32) = Inr unknownContext"
    by (simp only: endpointsDoc_position)
  have "(28, 42, [(2, 34, 42), (1, 32, 33)]) \<in> set (matchAll fieldPattern (getText backendsDoc))"
    by (simp only: backendsDoc_matches list.set_intros)
  from analyzeContext_at_occurrence [OF this]
  have b: "analyzeContext backendsDoc (Pos 0 31) = Inr unknownContext"
    by (simp only: backendsDoc_position)
  have ce: "classifyRange ''e'' ''.endpoints '' = endpoint"
    by (simp add: classifyRange_def)
  have cb: "classifyRange ''b'' ''.backends '' = backend"
    by (simp add: classifyRange_def)
  have u: "ctxType unknownContext = unknown"
    by (simp add: unknownContext_def)
  show ?thesis
    by (simp only: endpointsDoc_matches endpointsDoc_position endpointsDoc_lastRange ce e
        backendsDoc_matches backendsDoc_position backendsDoc_lastRange cb b u
        endpointsDoc_columns backendsDoc_columns simp_thms)
qed

subsection \<open>Claims about the unknown-field diagnostics and their suggestions\<close>

lemma findSimilarFields_names:
  "findSimilarFields st ctx fieldName =
     map fst (sort_key snd (filter (\<lambda>item. snd item \<le> 3)
       (map (\<lambda>n. (n, nameDistance fieldName n)) (map name (getFields st ctx)))))"
  by (simp add: findSimilarFields_def comp_def nameDistance_def)

lemma similar_items:
  fixes d :: "'a \<Rightarrow> nat"
  defines "items ns \<equiv> filter (\<lambda>item. snd item \<le> 3) (map (\<lambda>n. (n, d n)) ns)"
  shows "set (map fst (sort_key snd (items ns))) = {n \<in> set ns. d n \<le> 3}"
    and "map d (map fst (sort_key snd (items ns))) = map snd (sort_key snd (items ns))"
    and "filter (\<lambda>n. d n = k) (map fst (sort_key snd (items ns)))
           = filter (\<lambda>n. d n = k \<and> k \<le> 3) ns"
proof -
  have its: "set (items ns) = {(n, d n) | n. n \<in> set ns \<and> d n \<le> 3}"
    unfolding items_def by auto
  have inv: "snd y = d (fst y)" if "y \<in> set (sort_key snd (items ns))" for y
    using that its by auto
  have "set (map fst (sort_key snd (items ns))) = fst ` set (items ns)"
    by simp
  also have "\<dots> = {n \<in> set ns. d n \<le> 3}"
    unfolding its by force
  finally show "set (map fst (sort_key snd (items ns))) = {n \<in> set ns. d n \<le> 3}" .
  show "map d (map fst (sort_key snd (items ns))) = map snd (sort_key snd (items ns))"
    using inv by simp
  have "filter (\<lambda>n. d n = k) (map fst (sort_key snd (items ns)))
          = map fst (filter (\<lambda>y. d (fst y) = k) (sort_key snd (items ns)))"
    by (simp add: filter_map comp_def)
  also have "\<dots> = map fst (filter (\<lambda>y. snd y = k) (sort_key snd (items ns)))"
  proof -
    have "filter (\<lambda>y. d (fst y) = k) (sort_key snd (items ns))
            = filter (\<lambda>y. snd y = k) (sort_key snd (items ns))"
      by (rule filter_cong) (simp_all add: inv)
    then show ?thesis by simp
  qed
  also have "\<dots> = map fst (filter (\<lambda>y. snd y = k) (items ns))"
    by (simp only: sort_key_stable)
  also have "\<dots> = filter (\<lambda>n. d n = k \<and> k \<le> 3) ns"
    unfolding items_def by (induction ns) auto
  finally show "filter (\<lambda>n. d n = k) (map fst (sort_key snd (items ns)))
           = filter (\<lambda>n. d n = k \<and> k \<le> 3) ns" .
qed

text \<open>
  The list that the branch of the unknown-field diagnostic builds for its message: the
  first three names of \<^verbatim>\<open>findSimilarFields\<close>, each the name of a field of the shape at
  case-insensitive distance at most 3 from the given name, in ascending order of
  distance; names at the same distance keep the order of the field list of the shape.
\<close>

lemma findSimilarFields_bounded_sorted:
  "suggestedFields st ctx fieldName = take 3 (findSimilarFields st ctx fieldName)
   \<and> length (suggestedFields st ctx fieldName) \<le> 3
   \<and> (\<forall>n \<in> set (suggestedFields st ctx fieldName).
         n \<in> name ` set (getFields st ctx)
         \<and> levenshteinDistance (toLowerCase fieldName) (toLowerCase n) \<le> 3)
   \<and> sorted (map (\<lambda>n. levenshteinDistance (toLowerCase fieldName) (toLowerCase n))
               (suggestedFields st ctx fieldName))
   \<and> (\<forall>k. filter (\<lambda>n. levenshteinDistance (toLowerCase fieldName) (toLowerCase n) = k)
              (findSimilarFields st ctx fieldName)
          = filter (\<lambda>n. levenshteinDistance (toLowerCase fieldName) (toLowerCase n) = k \<and> k \<le> 3)
              (map name (getFields st ctx)))"
proof -
  let ?ns = "map name (getFields st ctx)"
  let ?d = "nameDistance fieldName"
  let ?all = "findSimilarFields st ctx fieldName"
  note fs = findSimilarFields_names [of st ctx fieldName]
  have 1: "set ?all = {n \<in> set ?ns. ?d n \<le> 3}"
    unfolding fs by (rule similar_items(1))
  have 2: "sorted (map ?d ?all)"
    unfolding fs similar_items(2) by (rule sorted_sort_key)
  have 3: "filter (\<lambda>n. ?d n = k) ?all = filter (\<lambda>n. ?d n = k \<and> k \<le> 3) ?ns" for k
    unfolding fs by (rule similar_items(3))
  have a: "length (suggestedFields st ctx fieldName) \<le> 3"
    by (simp add: suggestedFields_def)
  have b: "\<forall>n \<in> set (suggestedFields st ctx fieldName).
         n \<in> name ` set (getFields st ctx) \<and> ?d n \<le> 3"
  proof
    fix n assume "n \<in> set (suggestedFields st ctx fieldName)"
    then have "n \<in> set ?all"
      unfolding suggestedFields_def by (rule in_set_takeD)
    with 1 show "n \<in> name ` set (getFields st ctx) \<and> ?d n \<le> 3"
      by auto
  qed
  have "sorted (take 3 (map ?d ?all))"
    using 2 by (rule sorted_wrt_take)
  then have c: "sorted (map ?d (suggestedFields st ctx fieldName))"
    by (simp only: suggestedFields_def take_map)
  from a b c 3 show ?thesis
    unfolding nameDistance_def [abs_def] by (simp add: suggestedFields_def)
qed

lemma lower_samples:
  "toLowerCase ''post'' = ''post''" "toLowerCase ''port'' = ''port''"
  "toLowerCase ''host'' = ''host''" "toLowerCase ''methdo'' = ''methdo''"
  "toLowerCase ''endpoint'' = ''endpoint''" "toLowerCase ''url'' = ''url''"
  "toLowerCase ''method'' = ''method''" "toLowerCase ''backend'' = ''backend''"
  "toLowerCase ''endpoint_url'' = ''endpoint_url''"
  "toLowerCase ''backend_method'' = ''backend_method''"
  by (simp_all add: toLowerCase_def lower_char_def)

text \<open>
  In the endpoint shape of \<open>tieStore\<close> the fields \<^verbatim>\<open>port\<close> and \<^verbatim>\<open>host\<close> are both one edit
  away from \<^verbatim>\<open>post\<close>; the list has them in the order of the schema.
\<close>

lemma tie_fields: "map name (getFields tieStore endpoint) = [''port'', ''host'']"
  by code_simp

lemma tie_distances:
  "nameDistance ''post'' ''port'' = 1" "nameDistance ''post'' ''host'' = 1"
  by (simp_all add: nameDistance_def lower_samples levenshteinDistance_rows)

lemma findSimilarFields_ties: "findSimilarFields tieStore endpoint ''post'' = [''port'', ''host'']"
  by (simp add: findSimilarFields_names tie_fields tie_distances)

lemma sample_endpoint_names:
  "map name (getFields sampleStore endpoint) =
     [''endpoint'', ''url'', ''method'', ''backend'', ''endpoint_url'', ''backend_method'']"
  by code_simp

lemma typo_distances:
  "nameDistance ''methdo'' ''endpoint'' = 7" "nameDistance ''methdo'' ''url'' = 6"
  "nameDistance ''methdo'' ''method'' = 2" "nameDistance ''methdo'' ''backend'' = 7"
  "nameDistance ''methdo'' ''endpoint_url'' = 11"
  "nameDistance ''methdo'' ''backend_method'' = 10"
  by (simp_all add: nameDistance_def lower_samples levenshteinDistance_rows)

lemma typo_suggestions: "suggestedFields sampleStore endpoint ''methdo'' = [''method'']"
  by (simp add: suggestedFields_def findSimilarFields_names sample_endpoint_names typo_distances)

lemma typoDoc_matches:
  "matchAll fieldPattern (getText typoDoc) = [(29, 41, [(2, 35, 41), (1, 33, 34)])]"
  by code_simp

lemma typoDoc_field: "group (getText typoDoc) (29, 41, [(2, 35, 41), (1, 33, 34)]) 2 = ''methdo''"
  by code_simp

lemma typoDoc_position:
  "positionAt typoDoc
     (matchStartOf (getText typoDoc) (29, 41, [(2, 35, 41), (1, 33, 34)])) = Pos 0 32"
  by code_simp

lemma typoDoc_lastRange: "lastRange typoDoc (Pos 0 32) = Some (''e'', ''.endpoints '')"
  by code_simp

lemma typoDoc_context_41:
  "analyzeContext typoDoc (Pos 0 41) =
     Inr \<lparr>ctxType = endpoint, variableName = Some ''e'', fieldPath = Some [''methdo'']\<rparr>"
  by code_simp

lemma sample_methdo:
  "\<not> isValidField sampleStore endpoint ''methdo''" "isValidField sampleStore endpoint ''method''"
  by (code_simp, code_simp)

lemma typoDoc_commas: "validateTemplateJsonCommas typoDoc = []"
  by code_simp

text \<open>
  Claim C5 (the code misses it). In \<open>typoDoc\<close> the reference \<^verbatim>\<open>$e.methdo\<close> stands in a loop
  over \<^verbatim>\<open>.endpoints\<close>; the endpoint shape of the sample store has no field \<^verbatim>\<open>methdo\<close> and
  has the field \<^verbatim>\<open>method\<close>, at distance 2, which is the one name that the suggestion list
  for \<^verbatim>\<open>methdo\<close> holds. The unknown-field pass resolves the context at the start of the
  reference, column 32, where the analyzer answers \<open>unknown\<close> (it answers \<open>endpoint\<close> at
  the end of the reference, column 41), and so it skips the reference: the pass
  produces no diagnostic and \<^verbatim>\<open>updateDiagnostics\<close> publishes the empty list. By lemma
  \<open>unknownFieldPass_nil\<close> the pass produces no diagnostic for any document and any schema,
  so that no unknown-field diagnostic, and no suggestion, is ever published.
\<close>

theorem unknown_field_pass_reports_nothing:
  "matchAll fieldPattern (getText typoDoc) = [(29, 41, [(2, 35, 41), (1, 33, 34)])]
   \<and> group (getText typoDoc) (29, 41, [(2, 35, 41), (1, 33, 34)]) 2 = ''methdo''
   \<and> lastRange typoDoc (Pos 0 32) = Some (''e'', ''.endpoints '')
   \<and> classifyRange ''e'' ''.endpoints '' = endpoint
   \<and> \<not> isValidField sampleStore endpoint ''methdo''
   \<and> isValidField sampleStore endpoint ''method''
   \<and> levenshteinDistance (toLowerCase ''methdo'') (toLowerCase ''method'') = 2
   \<and> suggestedFields sampleStore endpoint ''methdo'' = [''method'']
   \<and> positionAt typoDoc
        (matchStartOf (getText typoDoc) (29, 41, [(2, 35, 41), (1, 33, 34)])) = Pos 0 32
   \<and> analyzeContext typoDoc (Pos 0 32) = Inr unknownContext
   \<and> analyzeContext typoDoc (Pos 0 41) =
        Inr \<lparr>ctxType = endpoint, variableName = Some ''e'', fieldPath = Some [''methdo'']\<rparr>
   \<and> fieldDiagnostic sampleStore typoDoc (29, 41, [(2, 35, 41), (1, 33, 34)]) = Inr []
   \<and> unknownFieldPass sampleStore typoDoc = Inr []
   \<and> updateDiagnostics sampleStore typoDoc = Inr (Some [])"
proof -
  have "(29, 41, [(2, 35, 41), (1, 33, 34)]) \<in> set (matchAll fieldPattern (getText typoDoc))"
    by (simp only: typoDoc_matches list.set_intros)
  from analyzeContext_at_occurrence [OF this]
  have a': "analyzeContext typoDoc
              (positionAt typoDoc
                 (matchStartOf (getText typoDoc) (29, 41, [(2, 35, 41), (1, 33, 34)])))
            = Inr unknownContext" .
  then have a: "analyzeContext typoDoc (Pos 0 32) = Inr unknownContext"
    by (simp only: typoDoc_position)
  have f: "fieldDiagnostic sampleStore typoDoc (29, 41, [(2, 35, 41), (1, 33, 34)]) = Inr []"
    using a' by (rule fieldDiagnostic_unknown) (simp add: unknownContext_def)
  have c: "classifyRange ''e'' ''.endpoints '' = endpoint"
    by (simp add: classifyRange_def)
  have d: "levenshteinDistance (toLowerCase ''methdo'') (toLowerCase ''method'') = 2"
    using typo_distances(3) by (simp only: nameDistance_def)
  have p: "unknownFieldPass sampleStore typoDoc = Inr []"
    by (rule unknownFieldPass_nil)
  have g: "languageId typoDoc = ''gotmpl''"
    by (simp add: typoDoc_def template_def)
  have u: "updateDiagnostics sampleStore typoDoc = Inr (Some [])"
    by (simp add: updateDiagnostics_def g p validateEnumValues_nil typoDoc_commas)
  show ?thesis
    by (simp only: typoDoc_matches typoDoc_field typoDoc_lastRange c sample_methdo d
        typo_suggestions typoDoc_position a typoDoc_context_41 f p u simp_thms)
qed

section \<open>The missing-comma pass\<close>

lemma rm_suffix: "rm N r s c s' c' \<Longrightarrow> \<exists>w. s = w @ s'"
proof (induction rule: rm.induct)
  case (rm_Atom a x s c)
  have "x # s = [x] @ s" by simp
  then show ?case by (rule exI)
next
  case (rm_Seq p s c s1 c1 q s2 c2)
  then obtain w1 w2 where "s = w1 @ s1" "s1 = w2 @ s2" by blast
  then have "s = (w1 @ w2) @ s2" by simp
  then show ?case by (rule exI)
next
  case (rm_StarS p s c s1 c1 s2 c2)
  then obtain w1 w2 where "s = w1 @ s1" "s1 = w2 @ s2" by blast
  then have "s = (w1 @ w2) @ s2" by simp
  then show ?case by (rule exI)
next
  case (rm_LazyS p s c s1 c1 s2 c2)
  then obtain w1 w2 where "s = w1 @ s1" "s1 = w2 @ s2" by blast
  then have "s = (w1 @ w2) @ s2" by simp
  then show ?case by (rule exI)
qed simp_all

lemma inlineTemplate_match:
  assumes "rm N inlineTemplatePattern s0 c rest c'"
  shows "\<exists>x. s0 = ''{{'' @ x @ ''}}'' @ rest"
proof -
  from assms obtain s1 c1 s2 c2 where
    a: "rm N (lit ''{{'') s0 c s1 c1"
    and b: "rm N (LazyStar (Atom AnyCh)) s1 c1 s2 c2"
    and d: "rm N (lit ''}}'') s2 c2 rest c'"
    unfolding inlineTemplatePattern_def rm_seqs_Cons seqs.simps(1) rm_Eps_iff by blast
  from rm_suffix [OF b] obtain x where "s1 = x @ s2" by blast
  with a d have "s0 = ''{{'' @ x @ ''}}'' @ rest" by (simp add: rm_lit)
  then show ?thesis by blast
qed

lemma char_before_rest:
  assumes "A @ a # rest = u @ v" "length rest < length v"
  shows "a \<in> set v"
proof -
  from assms(1) obtain us where
    "(A = u @ us \<and> us @ a # rest = v) \<or> (A @ us = u \<and> a # rest = us @ v)"
    by (auto simp: append_eq_append_conv2)
  then show ?thesis
  proof
    assume "A = u @ us \<and> us @ a # rest = v"
    then have "v = us @ a # rest" by simp
    then show ?thesis by simp
  next
    assume h: "A @ us = u \<and> a # rest = us @ v"
    then have "length (a # rest) = length (us @ v)" by simp
    then have "Suc (length rest) = length us + length v" by simp
    with assms(2) have "length us = 0" by linarith
    then have "us = []" by simp
    with h have "v = a # rest" by simp
    then show ?thesis by simp
  qed
qed

lemma inlineTemplate_match_end:
  assumes "(b, e, c) \<in> set (matchAll inlineTemplatePattern (u @ v))"
    and "CHR ''}'' \<notin> set v"
  shows "e \<le> length u"
proof -
  from matchAll_matches [OF assms(1)] obtain pre s0 rest where
    h: "u @ v = pre @ s0" "rm (length (u @ v)) inlineTemplatePattern s0 [] rest c"
      "e = length (u @ v) - length rest" by blast
  from inlineTemplate_match [OF h(2)] obtain x where "s0 = ''{{'' @ x @ ''}}'' @ rest"
    by blast
  with h(1) have eq: "(pre @ ''{{'' @ x @ ''}'') @ CHR ''}'' # rest = u @ v"
    by simp
  have "\<not> length rest < length v"
    using char_before_rest [OF eq] assms(2) by blast
  then show ?thesis using h(3) by simp
qed

lemma splice_tail:
  assumes "\<forall>(b, e, c) \<in> set ms. e \<le> L" "pos \<le> L"
  shows "\<exists>y. splice inp rep pos ms = y @ drop L inp"
  using assms
proof (induction ms arbitrary: pos)
  case Nil
  have "drop (L - pos) (drop pos inp) = drop L inp"
    using Nil(2) by simp
  then have "drop pos inp = take (L - pos) (drop pos inp) @ drop L inp"
    using append_take_drop_id [of "L - pos" "drop pos inp"] by simp
  then show ?case by (simp only: splice.simps) (rule exI)
next
  case (Cons m ms)
  obtain b e c where m: "m = (b, e, c)" by (cases m)
  with Cons.prems have "e \<le> L" "\<forall>(b, e, c) \<in> set ms. e \<le> L" by auto
  from Cons.IH [OF this(2,1)] obtain y where "splice inp rep e ms = y @ drop L inp"
    by blast
  then have "splice inp rep pos (m # ms) = (take (b - pos) (drop pos inp) @ rep @ y) @ drop L inp"
    by (simp add: m)
  then show ?case by (rule exI)
qed

lemma replace_keeps_tail:
  assumes "CHR ''}'' \<notin> set v"
  shows "\<exists>y. replaceRe inlineTemplatePattern rep (u @ v) = y @ v"
proof -
  have "\<forall>(b, e, c) \<in> set (matchAll inlineTemplatePattern (u @ v)). e \<le> length u"
    using inlineTemplate_match_end [OF _ assms] by auto
  from splice_tail [OF this, of 0 "u @ v" rep] show ?thesis
    by (simp add: replaceRe_def)
qed

lemma trim_keeps_last:
  assumes "\<not> is_space a" "\<forall>x \<in> set w. is_space x"
  shows "\<exists>z. trim (y @ a # w) = z @ [a]"
proof -
  have "\<exists>y'. dropWhile is_space (y @ a # w) = y' @ a # w"
  proof (cases "\<forall>x \<in> set y. is_space x")
    case True
    then have "dropWhile is_space (y @ a # w) = dropWhile is_space (a # w)"
      by (intro dropWhile_append2) auto
    then have "dropWhile is_space (y @ a # w) = [] @ a # w"
      using assms(1) by simp
    then show ?thesis by (rule exI)
  next
    case False
    then obtain x where "x \<in> set y" "\<not> is_space x" by blast
    then have "dropWhile is_space (y @ a # w) = dropWhile is_space y @ a # w"
      by (rule dropWhile_append1)
    then show ?thesis by (rule exI)
  qed
  then obtain y' where y': "dropWhile is_space (y @ a # w) = y' @ a # w" by blast
  have "dropWhile is_space (rev w @ a # rev y') = dropWhile is_space (a # rev y')"
    using assms(2) by (intro dropWhile_append2) auto
  then have "dropWhile is_space (rev w @ a # rev y') = a # rev y'"
    using assms(1) by simp
  then have "trim (y @ a # w) = y' @ [a]"
    by (simp add: trim_def y')
  then show ?thesis by (rule exI)
qed

lemma search_finds:
  assumes "suffix s0 s" "run N k s0 [] \<noteq> None"
  shows "search k N s \<noteq> None"
  using assms
proof (induction s)
  case Nil
  then show ?case by (auto split: option.splits)
next
  case (Cons x s)
  show ?case
  proof (cases "s0 = x # s")
    case True
    with Cons.prems(2) show ?thesis by (auto split: option.splits)
  next
    case False
    with Cons.prems(1) have "suffix s0 s" by (simp add: suffix_Cons)
    from Cons.IH [OF this Cons.prems(2)] show ?thesis by (auto split: option.splits)
  qed
qed

lemma lineAllowsNoComma_last:
  assumes "a \<in> set ''{[,''"
  shows "lineAllowsNoComma (z @ [a])"
proof -
  have "run N [R (seqs [Atom (OneOf ''{[,''), spaces, Eol])] [a] [] = Some ([], [])" for N
    using assms by simp
  then have r: "run N [R (seqs [Atom (OneOf ''{[,''), spaces, Eol])] [a] [] \<noteq> None" for N
    by simp
  have "suffix [a] (z @ [a])" by (simp add: suffix_def)
  from search_finds [OF this r] show ?thesis
    by (simp add: lineAllowsNoComma_def test_def exec_def)
qed

lemma not_space_opener: "a \<in> set ''{[,'' \<Longrightarrow> \<not> is_space a"
  by (auto simp: is_space_def)

lemma commaDiagnostic_cases:
  "commaDiagnostic rawLines cleanedLines i = [] \<or>
   commaDiagnostic rawLines cleanedLines i =
     [\<lparr>d_range = Rng (Pos i (length (rawLines ! i) - 1)) (Pos i (length (rawLines ! i))),
       message = ''Possible missing comma before next JSON property'',
       severity = Error, source = ''Template JSON'', code = ''missing-comma''\<rparr>]"
proof -
  have "nat (max (int (length (rawLines ! i)) - 1) 0) = length (rawLines ! i) - 1"
    by simp
  then show ?thesis
    unfolding commaDiagnostic_def Let_def
    by (simp only: split: if_splits) simp
qed

lemma commaDiagnostic_line:
  assumes "d \<in> set (commaDiagnostic rawLines cleanedLines i)"
  shows "line (range_start (d_range d)) = i"
  using assms commaDiagnostic_cases [of rawLines cleanedLines i]
  by (auto simp: Rng_def Pos_def)

lemma commaDiagnostic_exempt:
  "lineAllowsNoComma (trim (cleanedLines ! i)) \<Longrightarrow> commaDiagnostic rawLines cleanedLines i = []"
  by (simp add: commaDiagnostic_def Let_def)

lemma cleanTemplateLine_cases:
  "cleanTemplateLine ln = [] \<or> cleanTemplateLine ln = '','' \<or>
   cleanTemplateLine ln = replaceRe inlineTemplatePattern ''0'' ln"
  by (simp add: cleanTemplateLine_def Let_def)

lemma trim_comma: "trim '','' = '',''"
  by (simp add: trim_def is_space_def)

lemma commaDiagnostic_opener:
  assumes "a \<in> set ''{[,''" "\<forall>x \<in> set w. is_space x" "i < length rawLines"
    and "rawLines ! i = u @ a # w"
  shows "commaDiagnostic rawLines (map cleanTemplateLine rawLines) i = []"
proof -
  let ?ln = "rawLines ! i"
  have na: "\<not> is_space a" using assms(1) by (rule not_space_opener)
  have "CHR ''}'' \<notin> set (a # w)"
    using assms(1,2) by (auto simp: is_space_def)
  from replace_keeps_tail [OF this, of "''0''" u] obtain y where
    y: "replaceRe inlineTemplatePattern ''0'' ?ln = y @ a # w"
    by (auto simp: assms(4))
  from trim_keeps_last [OF na assms(2), of y] obtain z where
    "trim (y @ a # w) = z @ [a]" by blast
  with lineAllowsNoComma_last [OF assms(1), of z]
  have ok: "lineAllowsNoComma (trim (replaceRe inlineTemplatePattern ''0'' ?ln))"
    by (simp add: y)
  have cl: "map cleanTemplateLine rawLines ! i = cleanTemplateLine ?ln"
    using assms(3) by simp
  from cleanTemplateLine_cases [of ?ln] show ?thesis
  proof (elim disjE)
    assume "cleanTemplateLine ?ln = []"
    then show ?thesis by (simp add: commaDiagnostic_def Let_def cl truthy_def)
  next
    assume "cleanTemplateLine ?ln = '',''"
    then show ?thesis by (simp add: commaDiagnostic_def Let_def cl trim_comma)
  next
    assume "cleanTemplateLine ?ln = replaceRe inlineTemplatePattern ''0'' ?ln"
    with ok show ?thesis by (intro commaDiagnostic_exempt) (simp add: cl)
  qed
qed

lemma validateTemplateJsonCommas_line:
  assumes "d \<in> set (validateTemplateJsonCommas document)"
  shows "\<exists>i < length (linesOf document).
           d \<in> set (commaDiagnostic (linesOf document)
                      (map cleanTemplateLine (linesOf document)) i)"
  using assms
  by (auto simp: validateTemplateJsonCommas_def Let_def linesOf_def split: if_splits)

lemma validateTemplateJsonCommas_opener:
  assumes "a \<in> set ''{[,''" "\<forall>x \<in> set w. is_space x" "i < length (linesOf document)"
    and "linesOf document ! i = u @ a # w"
    and "d \<in> set (validateTemplateJsonCommas document)"
  shows "line (range_start (d_range d)) \<noteq> i"
proof
  assume eq: "line (range_start (d_range d)) = i"
  from validateTemplateJsonCommas_line [OF assms(5)] obtain j where
    j: "d \<in> set (commaDiagnostic (linesOf document) (map cleanTemplateLine (linesOf document)) j)"
    by blast
  from commaDiagnostic_line [OF j] eq have "j = i" by simp
  with j commaDiagnostic_opener [OF assms(1-4)] show False by simp
qed

lemma commaDoc_eval:
  \<open>validateTemplateJsonCommas (commaDoc ''"a": 1'') =
     [\<lparr>d_range = Rng (Pos 0 5) (Pos 0 6),
       message = ''Possible missing comma before next JSON property'',
       severity = Error, source = ''Template JSON'', code = ''missing-comma''\<rparr>]\<close>
  \<open>validateTemplateJsonCommas (commaDoc ''"a": 1,'') = []\<close>
  \<open>validateTemplateJsonCommas (commaDoc ''"a": {'') = []\<close>
  \<open>validateTemplateJsonCommas (commaDoc ''"a": ['') = []\<close>
  by (code_simp, code_simp, code_simp, code_simp)

lemma commaDoc_lines:
  \<open>linesOf (commaDoc ''"a": 1,'') = [''"a": 1,'', ''"b": 2'']\<close>
  \<open>linesOf (commaDoc ''"a": {'') = [''"a": {'', ''"b": 2'']\<close>
  \<open>linesOf (commaDoc ''"a": ['') = [''"a": ['', ''"b": 2'']\<close>
  by (code_simp, code_simp, code_simp)

lemma validateTemplateJsonCommas_text:
  assumes "endsWith (fileName document) ''.json.tmpl''"
    and "getText document = getText document'"
    and "endsWith (fileName document') ''.json.tmpl''"
  shows "validateTemplateJsonCommas document = validateTemplateJsonCommas document'"
  using assms by (simp add: validateTemplateJsonCommas_def)

lemma commaDoc_name: "endsWith (fileName (commaDoc s)) ''.json.tmpl''"
  unfolding commaDoc_def jsonTemplate_def by code_simp

lemma threeLines_eval:
  \<open>linesOf (jsonTemplate (''"a": {'' @ [CHR 0x0A] @ ''"b": 1'' @ [CHR 0x0A] @ ''"c": 2''))
     = [''"a": {'', ''"b": 1'', ''"c": 2'']\<close>
  \<open>validateTemplateJsonCommas
       (jsonTemplate (''"a": {'' @ [CHR 0x0A] @ ''"b": 1'' @ [CHR 0x0A] @ ''"c": 2''))
     = [\<lparr>d_range = Rng (Pos 1 5) (Pos 1 6),
         message = ''Possible missing comma before next JSON property'',
         severity = Error, source = ''Template JSON'', code = ''missing-comma''\<rparr>]\<close>
  by (code_simp, code_simp)

text \<open>
  Claim C6. In a document whose name ends in \<^verbatim>\<open>.json.tmpl\<close> and whose text is the two lines
  \<^verbatim>\<open>"a": 1\<close> and \<^verbatim>\<open>"b": 2\<close>, the missing-comma pass yields exactly one diagnostic: an error
  with the code \<^verbatim>\<open>missing-comma\<close> on the last character of the first line (line 0, columns
  5 to 6); when the document is a template, it is also all that \<^verbatim>\<open>updateDiagnostics\<close>
  publishes, whatever the schema. In any document, a line that ends with a comma, an open
  brace or an open bracket, followed by white space at most, gets no diagnostic of the
  pass.
\<close>

theorem missing_comma_pass:
  \<open>(endsWith (fileName document) ''.json.tmpl''
      \<and> getText document = ''"a": 1'' @ [CHR 0x0A] @ ''"b": 2'' \<longrightarrow>
      validateTemplateJsonCommas document =
        [\<lparr>d_range = Rng (Pos 0 5) (Pos 0 6),
          message = ''Possible missing comma before next JSON property'',
          severity = Error, source = ''Template JSON'', code = ''missing-comma''\<rparr>]
      \<and> (languageId document = ''gotmpl'' \<longrightarrow>
           updateDiagnostics st document =
             Inr (Some [\<lparr>d_range = Rng (Pos 0 5) (Pos 0 6),
                         message = ''Possible missing comma before next JSON property'',
                         severity = Error, source = ''Template JSON'', code = ''missing-comma''\<rparr>])))
    \<and> (i < length (linesOf document) \<and> linesOf document ! i = u @ a # w
         \<and> a \<in> set ''{[,'' \<and> list_all is_space w \<longrightarrow>
         filter (\<lambda>d. line (range_start (d_range d)) = i) (validateTemplateJsonCommas document)
           = [])\<close>
proof (intro conjI impI)
  assume h: \<open>endsWith (fileName document) ''.json.tmpl''
      \<and> getText document = ''"a": 1'' @ [CHR 0x0A] @ ''"b": 2''\<close>
  then have \<open>getText document = getText (commaDoc ''"a": 1'')\<close>
    by (simp add: commaDoc_def jsonTemplate_def)
  with h have \<open>validateTemplateJsonCommas document = validateTemplateJsonCommas (commaDoc ''"a": 1'')\<close>
    by (intro validateTemplateJsonCommas_text commaDoc_name) simp_all
  then show c: \<open>validateTemplateJsonCommas document =
        [\<lparr>d_range = Rng (Pos 0 5) (Pos 0 6),
          message = ''Possible missing comma before next JSON property'',
          severity = Error, source = ''Template JSON'', code = ''missing-comma''\<rparr>]\<close>
    by (simp only: commaDoc_eval(1))
  assume "languageId document = ''gotmpl''"
  then show \<open>updateDiagnostics st document =
             Inr (Some [\<lparr>d_range = Rng (Pos 0 5) (Pos 0 6),
                         message = ''Possible missing comma before next JSON property'',
                         severity = Error, source = ''Template JSON'', code = ''missing-comma''\<rparr>])\<close>
    by (simp add: updateDiagnostics_def unknownFieldPass_nil validateEnumValues_nil c)
next
  assume h: \<open>i < length (linesOf document) \<and> linesOf document ! i = u @ a # w
         \<and> a \<in> set ''{[,'' \<and> list_all is_space w\<close>
  then have g: "a \<in> set ''{[,''" "\<forall>x \<in> set w. is_space x" "i < length (linesOf document)"
    "linesOf document ! i = u @ a # w" by (simp_all add: list_all_iff)
  have "line (range_start (d_range d)) \<noteq> i"
    if "d \<in> set (validateTemplateJsonCommas document)" for d
    using g that by (rule validateTemplateJsonCommas_opener)
  then show "filter (\<lambda>d. line (range_start (d_range d)) = i) (validateTemplateJsonCommas document)
           = []"
    by (simp add: filter_empty_conv)
qed

text \<open>
  Witness for C6: the two lines of the claim; the same with the first line ending in a
  comma, an open brace and an open bracket; and three lines of which the first ends in an
  open brace and the second lacks its comma, so that the pass reports line 1 and not line 0.
\<close>

theorem missing_comma_pass_witness:
  \<open>validateTemplateJsonCommas (commaDoc ''"a": 1'') =
     [\<lparr>d_range = Rng (Pos 0 5) (Pos 0 6),
       message = ''Possible missing comma before next JSON property'',
       severity = Error, source = ''Template JSON'', code = ''missing-comma''\<rparr>]
   \<and> updateDiagnostics sampleStore (commaDoc ''"a": 1'') =
       Inr (Some [\<lparr>d_range = Rng (Pos 0 5) (Pos 0 6),
                   message = ''Possible missing comma before next JSON property'',
                   severity = Error, source = ''Template JSON'', code = ''missing-comma''\<rparr>])
   \<and> filter (\<lambda>d. line (range_start (d_range d)) = 0)
        (validateTemplateJsonCommas (commaDoc ''"a": 1,'')) = []
   \<and> filter (\<lambda>d. line (range_start (d_range d)) = 0)
        (validateTemplateJsonCommas (commaDoc ''"a": {'')) = []
   \<and> filter (\<lambda>d. line (range_start (d_range d)) = 0)
        (validateTemplateJsonCommas (commaDoc ''"a": ['')) = []
   \<and> validateTemplateJsonCommas
        (jsonTemplate (''"a": {'' @ [CHR 0x0A] @ ''"b": 1'' @ [CHR 0x0A] @ ''"c": 2''))
       = [\<lparr>d_range = Rng (Pos 1 5) (Pos 1 6),
           message = ''Possible missing comma before next JSON property'',
           severity = Error, source = ''Template JSON'', code = ''missing-comma''\<rparr>]
   \<and> filter (\<lambda>d. line (range_start (d_range d)) = 0)
        (validateTemplateJsonCommas
           (jsonTemplate (''"a": {'' @ [CHR 0x0A] @ ''"b": 1'' @ [CHR 0x0A] @ ''"c": 2''))) = []\<close>
proof (intro conjI)
  have g: \<open>getText (commaDoc ''"a": 1'') = ''"a": 1'' @ [CHR 0x0A] @ ''"b": 2''\<close>
    \<open>languageId (commaDoc ''"a": 1'') = ''gotmpl''\<close>
    by (simp_all add: commaDoc_def jsonTemplate_def)
  from missing_comma_pass [of \<open>commaDoc ''"a": 1''\<close> sampleStore 0 \<open>[]\<close> \<open>CHR '',''\<close> \<open>[]\<close>]
    commaDoc_name g
  show \<open>validateTemplateJsonCommas (commaDoc ''"a": 1'') =
     [\<lparr>d_range = Rng (Pos 0 5) (Pos 0 6),
       message = ''Possible missing comma before next JSON property'',
       severity = Error, source = ''Template JSON'', code = ''missing-comma''\<rparr>]\<close>
    and \<open>updateDiagnostics sampleStore (commaDoc ''"a": 1'') =
       Inr (Some [\<lparr>d_range = Rng (Pos 0 5) (Pos 0 6),
                   message = ''Possible missing comma before next JSON property'',
                   severity = Error, source = ''Template JSON'', code = ''missing-comma''\<rparr>])\<close>
    by blast+
  from missing_comma_pass [of \<open>commaDoc ''"a": 1,''\<close> sampleStore 0 \<open>''"a": 1''\<close> \<open>CHR '',''\<close> \<open>[]\<close>]
  show \<open>filter (\<lambda>d. line (range_start (d_range d)) = 0)
        (validateTemplateJsonCommas (commaDoc ''"a": 1,'')) = []\<close>
    by (simp add: commaDoc_lines)
  from missing_comma_pass [of \<open>commaDoc ''"a": {''\<close> sampleStore 0 \<open>''"a": ''\<close> \<open>CHR ''{''\<close> \<open>[]\<close>]
  show \<open>filter (\<lambda>d. line (range_start (d_range d)) = 0)
        (validateTemplateJsonCommas (commaDoc ''"a": {'')) = []\<close>
    by (simp add: commaDoc_lines)
  from missing_comma_pass [of \<open>commaDoc ''"a": [''\<close> sampleStore 0 \<open>''"a": ''\<close> \<open>CHR ''[''\<close> \<open>[]\<close>]
  show \<open>filter (\<lambda>d. line (range_start (d_range d)) = 0)
        (validateTemplateJsonCommas (commaDoc ''"a": ['')) = []\<close>
    by (simp add: commaDoc_lines)
  show \<open>validateTemplateJsonCommas
        (jsonTemplate (''"a": {'' @ [CHR 0x0A] @ ''"b": 1'' @ [CHR 0x0A] @ ''"c": 2''))
       = [\<lparr>d_range = Rng (Pos 1 5) (Pos 1 6),
           message = ''Possible missing comma before next JSON property'',
           severity = Error, source = ''Template JSON'', code = ''missing-comma''\<rparr>]\<close>
    by (rule threeLines_eval(2))
  let ?D = \<open>jsonTemplate (''"a": {'' @ [CHR 0x0A] @ ''"b": 1'' @ [CHR 0x0A] @ ''"c": 2'')\<close>
  have h: \<open>0 < length (linesOf ?D) \<and> linesOf ?D ! 0 = ''"a": '' @ CHR ''{'' # []
             \<and> CHR ''{'' \<in> set ''{[,'' \<and> list_all is_space []\<close>
    by (simp only: threeLines_eval(1)) simp
  show \<open>filter (\<lambda>d. line (range_start (d_range d)) = 0) (validateTemplateJsonCommas ?D) = []\<close>
    by (rule missing_comma_pass
        [of ?D sampleStore 0 \<open>''"a": ''\<close> \<open>CHR ''{''\<close> \<open>[]\<close>, THEN conjunct2, THEN mp, OF h])
qed

subsection \<open>Claims about field completion\<close>

lemma getFieldCompletions_sortTexts:
  "map sortText (getFieldCompletions st ctx partialField) =
     map (\<lambda>field. Some ((if required field then ''!0_'' else ''!1_'') @ name field))
       (filter (\<lambda>field. str_includes (toLowerCase (name field)) (toLowerCase partialField))
          (getFields st ctx))"
  by (simp add: getFieldCompletions_def createFieldCompletionItem_def comp_def)

lemma sortText_same_tier: "((p @ a :: string) < p @ b) = (a < b)"
  by (induction p) auto

text \<open>
  Claim C7, as amended. Field completion returns exactly the fields of the shape
  (canonical fields, then alias entries) whose lower-cased name contains the lower-cased
  partial text as a contiguous run, in the order of the field list of the shape. The
  list is not reordered: each item carries the sort key \<^verbatim>\<open>!0_\<close>\<open>name\<close> when the field is
  required and \<^verbatim>\<open>!1_\<close>\<open>name\<close> otherwise, so that every key of a required field is below
  every key of an optional field, and inside a tier the keys are ordered as the names.
\<close>

theorem field_completion_filter_and_sort_keys:
  "map label (getFieldCompletions st ctx partialField) =
     map name (filter (\<lambda>field. \<exists>pre post.
                         toLowerCase (name field) = pre @ toLowerCase partialField @ post)
                 (getFields st ctx))
   \<and> map sortText (getFieldCompletions st ctx partialField) =
       map (\<lambda>field. Some ((if required field then ''!0_'' else ''!1_'') @ name field))
         (filter (\<lambda>field. \<exists>pre post.
                     toLowerCase (name field) = pre @ toLowerCase partialField @ post)
            (getFields st ctx))
   \<and> (''!0_'' @ a :: string) < ''!1_'' @ b
   \<and> ((''!0_'' @ a :: string) < ''!0_'' @ b) = (a < b)
   \<and> ((''!1_'' @ a :: string) < ''!1_'' @ b) = (a < b)"
  using getFieldCompletions_labels [of st ctx partialField]
    getFieldCompletions_sortTexts [of st ctx partialField]
    sortText_tiers [of a b] sortText_same_tier [of "''!0_''" a b]
    sortText_same_tier [of "''!1_''" a b]
  by (simp only: str_includes_iff simp_thms)

lemma sample_completions:
  "map (\<lambda>item. (label item, sortText item)) (getFieldCompletions sampleStore endpoint []) =
     [(''endpoint'', Some ''!0_endpoint''), (''url'', Some ''!0_url''),
      (''method'', Some ''!1_method''), (''backend'', Some ''!1_backend''),
      (''endpoint_url'', Some ''!0_endpoint_url''),
      (''backend_method'', Some ''!1_backend_method'')]"
  by code_simp

lemma sample_completions_u:
  "map label (getFieldCompletions sampleStore endpoint ''U'') = [''url'', ''endpoint_url'']"
  by code_simp

lemma sample_required:
  "map (\<lambda>field. (name field, required field)) (getFields sampleStore endpoint) =
     [(''endpoint'', True), (''url'', True), (''method'', False), (''backend'', False),
      (''endpoint_url'', True), (''backend_method'', False)]"
  by code_simp

lemma sample_sorted_keys:
  "sort_key (\<lambda>p. the (snd p))
     [(''endpoint'', Some ''!0_endpoint''), (''url'', Some ''!0_url''),
      (''method'', Some ''!1_method''), (''backend'', Some ''!1_backend''),
      (''endpoint_url'', Some ''!0_endpoint_url''),
      (''backend_method'', Some ''!1_backend_method'')]
   = [(''endpoint'', Some ''!0_endpoint''), (''endpoint_url'', Some ''!0_endpoint_url''),
      (''url'', Some ''!0_url''), (''backend'', Some ''!1_backend''),
      (''backend_method'', Some ''!1_backend_method''), (''method'', Some ''!1_method'')]"
  by code_simp

text \<open>
  Witness for C7: the partial text \<^verbatim>\<open>U\<close> selects \<^verbatim>\<open>url\<close> and its alias, whatever the
  case of the letter.
\<close>

theorem field_completion_filter_and_sort_keys_witness:
  "map label (getFieldCompletions sampleStore endpoint ''U'') = [''url'', ''endpoint_url'']
   \<and> map name (filter (\<lambda>field. \<exists>pre post.
                         toLowerCase (name field) = pre @ toLowerCase ''U'' @ post)
                 (getFields sampleStore endpoint)) = [''url'', ''endpoint_url'']
   \<and> (''!0_url'' :: string) < ''!1_backend''"
  using field_completion_filter_and_sort_keys [of sampleStore endpoint "''U''" "''url''" "''backend''"]
    sample_completions_u
  by simp

text \<open>
  Counterexample to C7 as stated. With an empty partial text the endpoint fields of the
  sample store are returned in the order of the field list: the required alias
  \<^verbatim>\<open>endpoint_url\<close> comes after the optional \<^verbatim>\<open>method\<close> and \<^verbatim>\<open>backend\<close>. Ordering the
  items by their sort keys puts the required fields first, and then orders each group
  by name, not as the schema lists them: \<^verbatim>\<open>backend\<close> before \<^verbatim>\<open>method\<close>.
\<close>

theorem completion_order_counterexample:
  "map (\<lambda>field. (name field, required field)) (getFields sampleStore endpoint) =
     [(''endpoint'', True), (''url'', True), (''method'', False), (''backend'', False),
      (''endpoint_url'', True), (''backend_method'', False)]
   \<and> map label (getFieldCompletions sampleStore endpoint []) =
       [''endpoint'', ''url'', ''method'', ''backend'', ''endpoint_url'', ''backend_method'']
   \<and> map label (getFieldCompletions sampleStore endpoint []) \<noteq>
       [''endpoint'', ''url'', ''endpoint_url'', ''method'', ''backend'', ''backend_method'']
   \<and> map fst (sort_key (\<lambda>p. the (snd p))
         (map (\<lambda>item. (label item, sortText item)) (getFieldCompletions sampleStore endpoint [])))
       = [''endpoint'', ''endpoint_url'', ''url'', ''backend'', ''backend_method'', ''method'']
   \<and> map fst (sort_key (\<lambda>p. the (snd p))
         (map (\<lambda>item. (label item, sortText item)) (getFieldCompletions sampleStore endpoint [])))
       \<noteq> [''endpoint'', ''url'', ''endpoint_url'', ''method'', ''backend'', ''backend_method'']"
proof -
  have l: "map label (getFieldCompletions sampleStore endpoint []) =
       [''endpoint'', ''url'', ''method'', ''backend'', ''endpoint_url'', ''backend_method'']"
    using arg_cong [OF sample_completions, of "map fst"] by (simp add: comp_def)
  have s: "map fst (sort_key (\<lambda>p. the (snd p))
         (map (\<lambda>item. (label item, sortText item)) (getFieldCompletions sampleStore endpoint [])))
       = [''endpoint'', ''endpoint_url'', ''url'', ''backend'', ''backend_method'', ''method'']"
    by (simp only: sample_completions sample_sorted_keys) simp
  show ?thesis
    by (simp only: sample_required l s) simp
qed

end
